theory Spec2Isabelle
  imports Main "HOL-Library.AList" "HOL-Library.Char_ord" "HOL-Library.List_Lexorder"
begin

section \<open>Strings and POSIX paths\<close>

text \<open>
  Python strings are modelled as \<open>string\<close>; a path is a string. The functions below
  follow \<open>posixpath.join\<close>, \<open>posixpath.basename\<close> and \<open>posixpath.dirname\<close>.
\<close>

type_synonym path = string

definition slash :: char where
  "slash = CHR ''/''"

definition dot :: char where
  "dot = CHR ''.''"

definition startswith :: "string \<Rightarrow> string \<Rightarrow> bool" where
  "startswith s pre = (take (length pre) s = pre)"

definition endswith :: "string \<Rightarrow> string \<Rightarrow> bool" where
  "endswith s suf = (length suf \<le> length s \<and> drop (length s - length suf) s = suf)"

text \<open>\<open>s.lstrip(c)\<close>, \<open>s.rstrip(c)\<close> and \<open>s.strip(c)\<close> for a single character \<open>c\<close>.\<close>

definition lstrip_char :: "char \<Rightarrow> string \<Rightarrow> string" where
  "lstrip_char c s = dropWhile (\<lambda>x. x = c) s"

definition rstrip_char :: "char \<Rightarrow> string \<Rightarrow> string" where
  "rstrip_char c s = rev (dropWhile (\<lambda>x. x = c) (rev s))"

definition strip_char :: "char \<Rightarrow> string \<Rightarrow> string" where
  "strip_char c s = rstrip_char c (lstrip_char c s)"

text \<open>\<open>s.partition(c)[0]\<close>: the part of \<open>s\<close> before the first \<open>c\<close>, all of \<open>s\<close> when there is none.\<close>

definition partition_head :: "char \<Rightarrow> string \<Rightarrow> string" where
  "partition_head c s = takeWhile (\<lambda>x. x \<noteq> c) s"

text \<open>\<open>os.path.join(a, b)\<close>.\<close>

definition path_join :: "path \<Rightarrow> string \<Rightarrow> path" where
  "path_join a b =
     (if startswith b [slash] then b
      else if a = [] \<or> endswith a [slash] then a @ b
      else a @ [slash] @ b)"

text \<open>\<open>os.path.basename(p)\<close>: what follows the last slash.\<close>

definition basename :: "path \<Rightarrow> string" where
  "basename p = rev (takeWhile (\<lambda>x. x \<noteq> slash) (rev p))"

text \<open>
  \<open>os.path.dirname(p)\<close>: the part up to and including the last slash, with its trailing
  slashes removed unless it consists of slashes only.
\<close>

definition dirname :: "path \<Rightarrow> path" where
  "dirname p =
     (let head = rev (dropWhile (\<lambda>x. x \<noteq> slash) (rev p))
      in if head \<noteq> [] \<and> head \<noteq> replicate (length head) slash
         then rstrip_char slash head else head)"

text \<open>
  ASCII whitespace as \<open>str.strip()\<close> removes it, and \<open>str.lower()\<close> on ASCII letters.
\<close>

definition is_space :: "char \<Rightarrow> bool" where
  "is_space c = (c \<in> set [CHR '' '', CHR 0x09, CHR 0x0A, CHR 0x0B, CHR 0x0C, CHR 0x0D,
                            CHR 0x1C, CHR 0x1D, CHR 0x1E, CHR 0x1F])"

definition strip_ws :: "string \<Rightarrow> string" where
  "strip_ws s = rev (dropWhile is_space (rev (dropWhile is_space s)))"

definition lower_char :: "char \<Rightarrow> char" where
  "lower_char c =
     (let n = (of_char c :: nat) in if 65 \<le> n \<and> n \<le> 90 then char_of (n + 32) else c)"

definition lower :: "string \<Rightarrow> string" where
  "lower s = map lower_char s"

text \<open>\<open>s.split('/')\<close>.\<close>

fun split_slash :: "string \<Rightarrow> string list" where
  "split_slash [] = [[]]"
| "split_slash (c # cs) =
     (if c = slash then [] # split_slash cs
      else (case split_slash cs of
              [] \<Rightarrow> [[c]]
            | w # ws \<Rightarrow> (c # w) # ws))"

text \<open>\<open>'/'.join(comps)\<close>.\<close>

fun join_slash :: "string list \<Rightarrow> string" where
  "join_slash [] = []"
| "join_slash [w] = w"
| "join_slash (w # ws) = w @ [slash] @ join_slash ws"

text \<open>
  The component loop of \<open>posixpath.normpath\<close>; \<open>new_comps\<close> is kept in order, so
  \<open>new_comps[-1]\<close> is \<open>last\<close> and \<open>pop()\<close> is \<open>butlast\<close>.
\<close>

fun normpath_comps :: "nat \<Rightarrow> string list \<Rightarrow> string list \<Rightarrow> string list" where
  "normpath_comps initial_slashes new_comps [] = new_comps"
| "normpath_comps initial_slashes new_comps (x # comps) =
     (if x = [] \<or> x = [dot] then normpath_comps initial_slashes new_comps comps
      else if x \<noteq> [dot, dot]
              \<or> (initial_slashes = 0 \<and> new_comps = [])
              \<or> (new_comps \<noteq> [] \<and> last new_comps = [dot, dot])
           then normpath_comps initial_slashes (new_comps @ [x]) comps
      else if new_comps \<noteq> [] then normpath_comps initial_slashes (butlast new_comps) comps
      else normpath_comps initial_slashes new_comps comps)"

definition normpath :: "path \<Rightarrow> path" where
  "normpath p =
     (if p = [] then [dot]
      else
        let initial_slashes =
              (if startswith p [slash]
               then (if startswith p [slash, slash] \<and> \<not> startswith p [slash, slash, slash]
                     then 2 else 1)
               else (0::nat));
            comps = normpath_comps initial_slashes [] (split_slash p);
            q = replicate initial_slashes slash @ join_slash comps
        in if q = [] then [dot] else q)"

section \<open>The file system\<close>

text \<open>
  A file system is an association list from paths to nodes; the first binding of a path is
  the one in force. Paths are taken literally: a path is present when it is bound, and a
  symbolic link is followed only as the last component of a path, its target read relative
  to the directory of the link. At most 40 links are followed, the limit of Linux, after
  which the system call fails with ELOOP.
\<close>

datatype node = RegFile string | SymLink string | Dir

type_synonym filesys = "(path \<times> node) list"

datatype exn =
    FileNotFoundError
  | NotADirectoryError
  | IsADirectoryError
  | FileExistsError
  | OSError
  | RuntimeError "string list"
  | NotImplementedError string
  | CalledProcessError

definition lookup :: "filesys \<Rightarrow> path \<Rightarrow> node option" where
  "lookup fsys p = map_of fsys p"

fun stat_follow :: "nat \<Rightarrow> filesys \<Rightarrow> path \<Rightarrow> exn + node" where
  "stat_follow 0 fsys p =
     (case lookup fsys p of
        None \<Rightarrow> Inl FileNotFoundError
      | Some (SymLink t) \<Rightarrow> Inl OSError
      | Some n \<Rightarrow> Inr n)"
| "stat_follow (Suc k) fsys p =
     (case lookup fsys p of
        None \<Rightarrow> Inl FileNotFoundError
      | Some (SymLink t) \<Rightarrow> stat_follow k fsys (path_join (dirname p) t)
      | Some n \<Rightarrow> Inr n)"

definition MAXSYMLINKS :: nat where
  "MAXSYMLINKS = 40"

definition os_stat :: "filesys \<Rightarrow> path \<Rightarrow> exn + node" where
  "os_stat fsys p = stat_follow MAXSYMLINKS fsys p"

text \<open>
  \<open>DirEntry.is_file(follow_symlinks=True)\<close>: FileNotFoundError is caught and answered
  False, any other error of the stat call is raised.
\<close>

definition is_file :: "filesys \<Rightarrow> path \<Rightarrow> exn + bool" where
  "is_file fsys p =
     (case os_stat fsys p of
        Inr (RegFile _) \<Rightarrow> Inr True
      | Inr _ \<Rightarrow> Inr False
      | Inl FileNotFoundError \<Rightarrow> Inr False
      | Inl e \<Rightarrow> Inl e)"

text \<open>\<open>os.path.isdir\<close> and \<open>os.path.exists\<close> follow links and answer False on every error.\<close>

definition isdir :: "filesys \<Rightarrow> path \<Rightarrow> bool" where
  "isdir fsys p = (case os_stat fsys p of Inr Dir \<Rightarrow> True | _ \<Rightarrow> False)"

text \<open>\<open>open(p, 'rb').read()\<close>: the whole content of the file that \<open>p\<close> resolves to.\<close>

definition open_read :: "filesys \<Rightarrow> path \<Rightarrow> exn + string" where
  "open_read fsys p =
     (case os_stat fsys p of
        Inl e \<Rightarrow> Inl e
      | Inr (RegFile c) \<Rightarrow> Inr c
      | Inr _ \<Rightarrow> Inl IsADirectoryError)"

definition exists :: "filesys \<Rightarrow> path \<Rightarrow> bool" where
  "exists fsys p = (case os_stat fsys p of Inr _ \<Rightarrow> True | Inl _ \<Rightarrow> False)"

subsection \<open>The world of one run\<close>

text \<open>
  The state that the program changes: the file system, what was written to standard
  output and to standard error, and the system calls and subprocesses issued so far, in
  order.
\<close>

datatype syscall =
    Mkstemp path
  | Write path string
  | Close path
  | Replace path path
  | Unlink path
  | Symlink string path
  | Mkdir path
  | Subprocess "string list" path

record world =
  files :: filesys
  out :: "string list"
  err :: "string list"
  calls :: "syscall list"

text \<open>
  What the program reads from its environment: the digest function of \<open>hashlib\<close>, the
  date of today as year, month and day, the random part of the name that \<open>mkstemp\<close>
  chooses, the call of \<open>copy_file\<close> that the operating system lets fail (an I/O error,
  a full disk, an exceeded quota, a missing permission), and the behaviour of the \<open>git\<close> subprocesses:
  the exit status of \<open>git rev-parse\<close> in a directory or the error of starting it, and
  the exit statuses of \<open>git add\<close> and \<open>git commit\<close>.
\<close>

text \<open>
  The calls of \<open>copy_file\<close> that can fail: \<open>mkstemp\<close>, the \<open>open\<close> of the source,
  each \<open>read\<close> and each \<open>write\<close> by its index, the \<open>close\<close> and the \<open>replace\<close> of
  the \<open>try\<close> block, and the \<open>close\<close> and the \<open>unlink\<close> of the \<open>finally\<close> clause.
\<close>

datatype step =
    AtMkstemp
  | AtOpen
  | AtRead nat
  | AtWrite nat
  | AtClose
  | AtReplace
  | AtCloseFinally
  | AtUnlink

record env =
  sha256 :: "string \<Rightarrow> string"
  today :: "nat \<times> nat \<times> nat"
  tmp_token :: string
  fault :: "step option"
  git_rev_parse :: "path \<Rightarrow> exn + int"
  git_add :: int
  git_commit :: int

subsection \<open>System calls\<close>

text \<open>
  \<open>tempfile.mkstemp(suffix=".tmp", dir=d)\<close> creates an empty file \<open>tmp<random>.tmp\<close> in
  \<open>d\<close>. The environment draws the name once; a name that is taken counts as the
  exhaustion of the attempts, which \<open>mkstemp\<close> reports as FileExistsError.
\<close>

definition tmp_name :: "env \<Rightarrow> string" where
  "tmp_name ev = ''tmp'' @ tmp_token ev @ ''.tmp''"

definition mkstemp :: "env \<Rightarrow> path \<Rightarrow> world \<Rightarrow> (exn + path) \<times> world" where
  "mkstemp ev d w =
     (let p = path_join d (tmp_name ev)
      in if fault ev = Some AtMkstemp then (Inl OSError, w)
         else (case os_stat (files w) d of
                 Inl e \<Rightarrow> (Inl e, w)
               | Inr Dir \<Rightarrow>
                   (if lookup (files w) p \<noteq> None then (Inl FileExistsError, w)
                    else (Inr p, w\<lparr>files := AList.update p (RegFile []) (files w),
                                     calls := calls w @ [Mkstemp p]\<rparr>))
               | Inr _ \<Rightarrow> (Inl NotADirectoryError, w)))"

text \<open>
  \<open>os.write(fd, block)\<close> on the descriptor of the temporary file at \<open>p\<close> appends the
  block; a write to a regular file is taken to be complete.
\<close>

definition os_write :: "path \<Rightarrow> string \<Rightarrow> world \<Rightarrow> world" where
  "os_write p block w =
     w\<lparr>files := AList.update p
                  (RegFile ((case lookup (files w) p of Some (RegFile c) \<Rightarrow> c | _ \<Rightarrow> []) @ block))
                  (files w),
       calls := calls w @ [Write p block]\<rparr>"

text \<open>
  \<open>os.close(fd)\<close> on the descriptor of the temporary file at \<open>p\<close>; \<open>at\<close> names the
  call and \<open>fd_open\<close> tells whether the descriptor is still open. The call fails when the
  environment lets it fail, and on a descriptor that is not open any more (EBADF). A
  \<open>close\<close> that fails has released the descriptor all the same, as Linux does, so the
  descriptor is not open after any call of \<open>close\<close>.
\<close>

definition os_close :: "env \<Rightarrow> step \<Rightarrow> bool \<Rightarrow> path \<Rightarrow> world \<Rightarrow> exn option \<times> world" where
  "os_close ev at fd_open p w =
     (if \<not> fd_open \<or> fault ev = Some at then (Some OSError, w)
      else (None, w\<lparr>calls := calls w @ [Close p]\<rparr>))"

text \<open>
  \<open>os.replace(a, b)\<close> renames the node at \<open>a\<close> to \<open>b\<close> in one step, replacing a file
  or a symbolic link at \<open>b\<close>, and fails on a directory at \<open>b\<close>.
\<close>

definition os_replace :: "env \<Rightarrow> path \<Rightarrow> path \<Rightarrow> world \<Rightarrow> exn option \<times> world" where
  "os_replace ev a b w =
     (if fault ev = Some AtReplace then (Some OSError, w)
      else (case lookup (files w) a of
              None \<Rightarrow> (Some FileNotFoundError, w)
            | Some n \<Rightarrow>
                (if lookup (files w) b = Some Dir then (Some IsADirectoryError, w)
                 else (None, w\<lparr>files := AList.update b n (AList.delete a (files w)),
                                 calls := calls w @ [Replace a b]\<rparr>))))"

text \<open>\<open>os.unlink(p)\<close> removes a file or the symbolic link itself.\<close>

definition os_unlink :: "path \<Rightarrow> world \<Rightarrow> exn option \<times> world" where
  "os_unlink p w =
     (case lookup (files w) p of
        None \<Rightarrow> (Some FileNotFoundError, w)
      | Some Dir \<Rightarrow> (Some IsADirectoryError, w)
      | Some _ \<Rightarrow> (None, w\<lparr>files := AList.delete p (files w), calls := calls w @ [Unlink p]\<rparr>))"

definition os_symlink :: "string \<Rightarrow> path \<Rightarrow> world \<Rightarrow> exn option \<times> world" where
  "os_symlink target p w =
     (if lookup (files w) p \<noteq> None then (Some FileExistsError, w)
      else (None, w\<lparr>files := AList.update p (SymLink target) (files w),
                      calls := calls w @ [Symlink target p]\<rparr>))"

definition os_mkdir :: "path \<Rightarrow> world \<Rightarrow> exn option \<times> world" where
  "os_mkdir p w =
     (if lookup (files w) p \<noteq> None then (Some FileExistsError, w)
      else if dirname p \<noteq> [] \<and> \<not> exists (files w) (dirname p) then (Some FileNotFoundError, w)
      else if dirname p \<noteq> [] \<and> \<not> isdir (files w) (dirname p) then (Some NotADirectoryError, w)
      else (None, w\<lparr>files := AList.update p Dir (files w), calls := calls w @ [Mkdir p]\<rparr>))"

text \<open>
  \<open>os.makedirs(p, exist_ok=True)\<close>: \<open>os.path.split\<close> gives \<open>dirname\<close> and
  \<open>basename\<close>; the parents are made first, a FileExistsError of theirs is passed over,
  and an error of the last \<open>mkdir\<close> is dropped when the directory is there.
\<close>

function makedirs :: "path \<Rightarrow> world \<Rightarrow> exn option \<times> world" where
  "makedirs p w =
     (let (head, tail) =
            (if basename p = [] then (dirname (dirname p), basename (dirname p))
             else (dirname p, basename p));
          (r, w1) =
            (if head \<noteq> [] \<and> tail \<noteq> [] \<and> \<not> exists (files w) head
             then (case makedirs head w of
                     (Some FileExistsError, w') \<Rightarrow> (None, w')
                   | other \<Rightarrow> other)
             else (None, w))
      in case r of
           Some e \<Rightarrow> (Some e, w1)
         | None \<Rightarrow>
             (if head \<noteq> [] \<and> tail \<noteq> [] \<and> \<not> exists (files w) head \<and> tail = [dot]
              then (None, w1)
              else (case os_mkdir p w1 of
                      (Some e, w2) \<Rightarrow> (if isdir (files w2) p then (None, w2) else (Some e, w2))
                    | (None, w2) \<Rightarrow> (None, w2))))"
  by pat_completeness auto
termination
proof (relation "measure (\<lambda>(p, w). length p)")
  show "wf (measure (\<lambda>(p, w). length p))" by simp
next
  fix p :: path and w :: world and x xa y
  assume a: "x = (if basename p = [] then (dirname (dirname p), basename (dirname p))
                  else (dirname p, basename p))"
    "(xa, y) = x" "xa \<noteq> [] \<and> y \<noteq> [] \<and> \<not> exists (files w) xa"
  have shorter: "length (dirname q) + length (basename q) \<le> length q" for q
  proof -
    let ?h = "rev (dropWhile (\<lambda>x. x \<noteq> slash) (rev q))"
    have e: "length ?h + length (basename q) = length q"
      unfolding basename_def
      by (metis length_append length_rev takeWhile_dropWhile_id add.commute)
    have "length (rstrip_char slash ?h) \<le> length ?h"
      by (simp add: rstrip_char_def) (metis length_dropWhile_le length_rev)
    then have "length (dirname q) \<le> length ?h"
      unfolding dirname_def Let_def by simp
    with e show ?thesis by linarith
  qed
  have "length xa < length p"
  proof (cases "basename p = []")
    case True
    with a have "xa = dirname (dirname p)" "basename (dirname p) \<noteq> []" by auto
    then have "length xa < length (dirname p)"
      using shorter [of "dirname p"] by (cases "basename (dirname p)") auto
    then show ?thesis using shorter [of p] by linarith
  next
    case False
    with a have "xa = dirname p" by auto
    then show ?thesis using shorter [of p] False by (cases "basename p") auto
  qed
  then show "((xa, w), p, w) \<in> measure (\<lambda>(p, w). length p)" by simp
qed

subsection \<open>Directory listings\<close>

record DirEntry =
  name :: string
  path :: path

text \<open>
  The name under which \<open>p\<close> is an entry of the directory \<open>d\<close>: \<open>p\<close> is \<open>d\<close>, a slash
  and a non-empty name without slash.
\<close>

definition child_name :: "path \<Rightarrow> path \<Rightarrow> string option" where
  "child_name d p =
     (let pre = path_join d []; n = drop (length pre) p
      in if startswith p pre \<and> n \<noteq> [] \<and> slash \<notin> set n then Some n else None)"

text \<open>
  \<open>os.scandir(d)\<close>: one entry for each bound path that is a child of \<open>d\<close>, its
  \<open>path\<close> being \<open>os.path.join(d, name)\<close>.
\<close>

definition os_scandir :: "filesys \<Rightarrow> path \<Rightarrow> exn + DirEntry list" where
  "os_scandir fsys d =
     (case os_stat fsys d of
        Inl e \<Rightarrow> Inl e
      | Inr Dir \<Rightarrow>
          Inr (concat (map (\<lambda>p. case child_name d p of
                                   None \<Rightarrow> []
                                 | Some n \<Rightarrow> [\<lparr>name = n, path = path_join d n\<rparr>])
                           (remdups (map fst fsys))))
      | Inr _ \<Rightarrow> Inl NotADirectoryError)"

section \<open>Build information and build types\<close>

record BuildInfo =
  src_dir :: path
  build_dir :: path
  config_root :: path

datatype btype_cls =
    LinuxBuildType
  | BuildrootBuildType
  | BuildrootBusyboxBuildType
  | GenericBuildType

fun NAME :: "btype_cls \<Rightarrow> string" where
  "NAME LinuxBuildType = ''linux''"
| "NAME BuildrootBuildType = ''buildroot''"
| "NAME BuildrootBusyboxBuildType = ''buildroot-busybox''"
| "NAME GenericBuildType = ''generic''"

fun ALIASES :: "btype_cls \<Rightarrow> string list" where
  "ALIASES LinuxBuildType = []"
| "ALIASES BuildrootBuildType = [''br'']"
| "ALIASES BuildrootBusyboxBuildType = [''br-busybox'', ''brb'']"
| "ALIASES GenericBuildType = []"

fun BUILD_CONFIG_FILENAME :: "btype_cls \<Rightarrow> string" where
  "BUILD_CONFIG_FILENAME BuildrootBusyboxBuildType = ''busybox.config''"
| "BUILD_CONFIG_FILENAME _ = ''.config''"

record BuildType =
  cls :: btype_cls
  info :: BuildInfo
  ckey :: string

text \<open>The constructor: \<open>self.ckey = (ckey or self.NAME)\<close>.\<close>

definition new_build_type :: "btype_cls \<Rightarrow> BuildInfo \<Rightarrow> string option \<Rightarrow> BuildType" where
  "new_build_type c i k =
     \<lparr>cls = c, info = i,
      ckey = (case k of None \<Rightarrow> NAME c | Some s \<Rightarrow> (if s = [] then NAME c else s))\<rparr>"

definition get_default_config_name :: string where
  "get_default_config_name = ''latest''"

definition get_build_config_file_path :: "BuildType \<Rightarrow> path" where
  "get_build_config_file_path bt =
     path_join (build_dir (info bt)) (BUILD_CONFIG_FILENAME (cls bt))"

definition get_config_dir_path :: "BuildType \<Rightarrow> path" where
  "get_config_dir_path bt =
     (if ckey bt \<noteq> [] then path_join (config_root (info bt)) (ckey bt)
      else config_root (info bt))"

subsection \<open>Detection\<close>

text \<open>
  \<open>fh.readline()\<close> on a text-mode file ends the line at the first line feed or carriage
  return; the terminator is whitespace, which the following \<open>strip()\<close> removes.
\<close>

definition first_line :: "string \<Rightarrow> string" where
  "first_line c = strip_ws (takeWhile (\<lambda>x. x \<noteq> CHR 0x0A \<and> x \<noteq> CHR 0x0D) c)"

text \<open>
  \<open>detect\<close> returns its answer with the instance, whose key the generic variant
  reassigns. The busybox variant inherits the method of the buildroot variant.
\<close>

fun detect :: "BuildType \<Rightarrow> bool \<Rightarrow> filesys \<Rightarrow> exn + (bool \<times> BuildType)" where
  "detect bt guess_ckey fsys =
     (case cls bt of
        LinuxBuildType \<Rightarrow> Inr (False, bt)
      | GenericBuildType \<Rightarrow>
          (if guess_ckey
           then Inr (True,
                  bt\<lparr>ckey := partition_head dot (strip_char dot (basename (build_dir (info bt))))\<rparr>)
           else Inr (True, bt))
      | _ \<Rightarrow>
          (case open_read fsys (path_join (src_dir (info bt)) ''Makefile'') of
             Inl FileNotFoundError \<Rightarrow> Inr (False, bt)
           | Inl e \<Rightarrow> Inl e
           | Inr c \<Rightarrow> Inr (first_line c = ''# Makefile for buildroot'', bt)))"

definition KNOWN_BUILD_TYPES :: "btype_cls list" where
  "KNOWN_BUILD_TYPES =
     [LinuxBuildType, BuildrootBuildType, BuildrootBusyboxBuildType, GenericBuildType]"

text \<open>
  \<open>get_build_type_map\<close>: both dictionaries keep insertion order, and a repeated key
  keeps its place and takes the later value, as \<open>AList.update\<close> does.
\<close>

definition add_build_type ::
  "btype_cls \<Rightarrow> (string \<times> btype_cls) list \<times> (string \<times> btype_cls) list
     \<Rightarrow> (string \<times> btype_cls) list \<times> (string \<times> btype_cls) list" where
  "add_build_type c maps =
     (let (bmap, bmap_alias) = maps;
          (bmap1, alias1) =
            (if NAME c \<noteq> []
             then (AList.update (NAME c) c bmap, AList.update (NAME c) c bmap_alias)
             else (bmap, bmap_alias))
      in (bmap1, fold (\<lambda>a m. AList.update a c m) (ALIASES c) alias1))"

definition get_build_type_map ::
  "(string \<times> btype_cls) list \<times> (string \<times> btype_cls) list" where
  "get_build_type_map = fold add_build_type KNOWN_BUILD_TYPES ([], [])"

text \<open>The \<open>for\<close> \<open>else\<close> loop of \<open>main\<close> over the values of the build type map.\<close>

fun auto_detect :: "btype_cls list \<Rightarrow> BuildInfo \<Rightarrow> filesys \<Rightarrow> exn + BuildType" where
  "auto_detect [] i fsys = Inl (NotImplementedError (''no build type found for '' @ src_dir i))"
| "auto_detect (c # cs) i fsys =
     (case detect (new_build_type c i None) True fsys of
        Inl e \<Rightarrow> Inl e
      | Inr (True, bt) \<Rightarrow> Inr bt
      | Inr (False, bt) \<Rightarrow> auto_detect cs i fsys)"

text \<open>
  The selection of \<open>main\<close>, from the value of the \<open>--type\<close> option (None when the option
  is absent). The test \<open>arg_config == "auto"\<close> compares the namespace of all arguments
  with a string and is False.
\<close>

definition select_build_type :: "string option \<Rightarrow> BuildInfo \<Rightarrow> filesys \<Rightarrow> exn + BuildType" where
  "select_build_type type_opt i fsys =
     (let arg_type =
            (case type_opt of
               None \<Rightarrow> []
             | Some t \<Rightarrow> (if t = [] then [] else normpath (strip_char slash (lower t))));
          (build_type_map, build_type_alias_map) = get_build_type_map
      in if arg_type = [] \<or> False then auto_detect (map snd build_type_map) i fsys
         else (case map_of build_type_alias_map arg_type of
                 Some c \<Rightarrow>
                   (case detect (new_build_type c i None) False fsys of
                      Inl e \<Rightarrow> Inl e
                    | Inr (True, bt) \<Rightarrow> Inr bt
                    | Inr (False, bt) \<Rightarrow> Inl (RuntimeError [''build type mismatch'', NAME (cls bt)]))
               | None \<Rightarrow>
                   (case detect (new_build_type GenericBuildType i (Some arg_type)) True fsys of
                      Inl e \<Rightarrow> Inl e
                    | Inr (True, bt) \<Rightarrow> Inr bt
                    | Inr (False, bt) \<Rightarrow>
                        Inl (RuntimeError [''build type mismatch'', NAME (cls bt)]))))"

section \<open>The operations\<close>

subsection \<open>Scanning the config store\<close>

text \<open>
  The generator \<open>scan_config_dir\<close> yields the entries that are files, links followed;
  an error of \<open>is_file\<close> ends the scan with that error.
\<close>

fun scan_config_dir :: "filesys \<Rightarrow> DirEntry list \<Rightarrow> exn + DirEntry list" where
  "scan_config_dir fsys [] = Inr []"
| "scan_config_dir fsys (e # es) =
     (case is_file fsys (path e) of
        Inl x \<Rightarrow> Inl x
      | Inr b \<Rightarrow>
          (case scan_config_dir fsys es of
             Inl x \<Rightarrow> Inl x
           | Inr r \<Rightarrow> Inr (if b then e # r else r)))"

text \<open>
  The filter of the dictionary comprehension. The names of directory entries are not
  empty, so \<open>e.name[0]\<close> is the first character.
\<close>

definition name_ok :: "string \<Rightarrow> bool" where
  "name_ok n = (take 1 n \<noteq> ''.'' \<and> \<not> startswith n ''README'' \<and> \<not> endswith n ''.tmp'')"

text \<open>
  \<open>list_config_dir\<close>: the dictionary from entry names to entries, kept as an association
  list in insertion order.
\<close>

definition list_config_dir :: "filesys \<Rightarrow> path \<Rightarrow> exn + (string \<times> DirEntry) list" where
  "list_config_dir fsys config_dir =
     (case os_scandir fsys config_dir of
        Inl x \<Rightarrow> Inl x
      | Inr es \<Rightarrow>
          (case scan_config_dir fsys es of
             Inl x \<Rightarrow> Inl x
           | Inr fs \<Rightarrow>
               Inr (fold (\<lambda>e cmap. AList.update (name e) e cmap)
                         (filter (\<lambda>e. name_ok (name e)) fs) [])))"

text \<open>\<open>get_config_dir\<close> turns a FileNotFoundError into the map None and raises the rest.\<close>

definition get_config_dir ::
  "BuildType \<Rightarrow> bool \<Rightarrow> world \<Rightarrow> (exn + path \<times> (string \<times> DirEntry) list option) \<times> world" where
  "get_config_dir bt verbose w =
     (let cdir = get_config_dir_path bt
      in case list_config_dir (files w) cdir of
           Inl FileNotFoundError \<Rightarrow>
             (Inr (cdir, None),
              if verbose
              then w\<lparr>err := err w @ [''config store directory missing: '' @ cdir @ [CHR 0x0A]]\<rparr>
              else w)
         | Inl x \<Rightarrow> (Inl x, w)
         | Inr cmap \<Rightarrow> (Inr (cdir, Some cmap), w))"

subsection \<open>Copying a file\<close>

definition bsize :: nat where
  "bsize = 2 ^ 14"

text \<open>
  The \<open>while\<close> loop of \<open>copy_file\<close>: \<open>block\<close> is the block read last, \<open>rest\<close> what
  the file handle has not yet given, \<open>k\<close> the number of blocks written so far. It returns
  the exception raised, if any.
\<close>

function copy_loop ::
  "env \<Rightarrow> path \<Rightarrow> nat \<Rightarrow> string \<Rightarrow> string \<Rightarrow> world \<Rightarrow> exn option \<times> world" where
  "copy_loop ev tmp k block rest w =
     (if block = [] then (None, w)
      else if fault ev = Some (AtWrite k) then (Some OSError, w)
      else (let w1 = os_write tmp block w
            in if fault ev = Some (AtRead (Suc k)) then (Some OSError, w1)
               else copy_loop ev tmp (Suc k) (take bsize rest) (drop bsize rest) w1))"
  by pat_completeness auto
termination
  by (relation "measure (\<lambda>(ev, tmp, k, block, rest, w). length block + length rest)")
     (auto simp: min_def neq_Nil_conv)

declare copy_loop.simps [simp del]

text \<open>
  The body of the \<open>try\<close> statement. It returns the exception raised, if any, whether
  \<open>tmp_fd\<close> and \<open>tmp_filepath\<close> are still set, whether the descriptor of the temporary
  file is still open, and the world. When \<open>os.close\<close> raises, the assignment
  \<open>tmp_fd = None\<close> after it is not reached.
\<close>

definition copy_try ::
  "env \<Rightarrow> path \<Rightarrow> path \<Rightarrow> path \<Rightarrow> world
     \<Rightarrow> exn option \<times> bool \<times> bool \<times> bool \<times> world" where
  "copy_try ev src dst tmp_filepath w =
     (case (if fault ev = Some AtOpen then Inl OSError else open_read (files w) src) of
        Inl e \<Rightarrow> (Some e, True, True, True, w)
      | Inr content \<Rightarrow>
          (if fault ev = Some (AtRead 0) then (Some OSError, True, True, True, w)
           else (case copy_loop ev tmp_filepath 0 (take bsize content) (drop bsize content) w of
                   (Some e, w1) \<Rightarrow> (Some e, True, True, True, w1)
                 | (None, w1) \<Rightarrow>
                     (case os_close ev AtClose True tmp_filepath w1 of
                        (Some e, w2) \<Rightarrow> (Some e, True, True, False, w2)
                      | (None, w2) \<Rightarrow>
                          (case os_replace ev tmp_filepath dst w2 of
                             (Some e, w3) \<Rightarrow> (Some e, False, True, False, w3)
                           | (None, w3) \<Rightarrow> (None, False, False, False, w3))))))"

text \<open>
  The \<open>finally\<close> clause. An exception of its \<open>os.close\<close> leaves the clause at once, so
  that \<open>os.unlink\<close> is not reached; an exception of \<open>os.unlink\<close> leaves it as well.
\<close>

definition copy_finally ::
  "env \<Rightarrow> path \<Rightarrow> bool \<Rightarrow> bool \<Rightarrow> bool \<Rightarrow> world \<Rightarrow> exn option \<times> world" where
  "copy_finally ev tmp_filepath fd_set path_set fd_open w =
     (case (if fd_set then os_close ev AtCloseFinally fd_open tmp_filepath w else (None, w)) of
        (Some e, w1) \<Rightarrow> (Some e, w1)
      | (None, w1) \<Rightarrow>
          (if path_set
           then (if fault ev = Some AtUnlink then (Some OSError, w1)
                 else os_unlink tmp_filepath w1)
           else (None, w1)))"

text \<open>
  \<open>copy_file\<close>. An exception raised in the \<open>finally\<close> clause takes the place of the one
  of the \<open>try\<close> block.
\<close>

definition copy_file :: "env \<Rightarrow> path \<Rightarrow> path \<Rightarrow> world \<Rightarrow> exn option \<times> world" where
  "copy_file ev src dst w =
     (let w0 = w\<lparr>out := out w @ [src @ '' -> '' @ dst @ [CHR 0x0A]]\<rparr>;
          dst_dir = dirname dst
      in case mkstemp ev dst_dir w0 of
           (Inl e, w1) \<Rightarrow> (Some e, w1)
         | (Inr tmp_filepath, w1) \<Rightarrow>
             (case copy_try ev src dst tmp_filepath w1 of
                (r, fd_set, path_set, fd_open, w2) \<Rightarrow>
                  (case copy_finally ev tmp_filepath fd_set path_set fd_open w2 of
                     (Some e, w3) \<Rightarrow> (Some e, w3)
                   | (None, w3) \<Rightarrow> (r, w3))))"

subsection \<open>Hashing a file\<close>

text \<open>
  The hash object is modelled by the data it was given: \<open>update\<close> appends a block and
  \<open>hexdigest\<close> applies the digest function.
\<close>

function hash_loop :: "string \<Rightarrow> string \<Rightarrow> string \<Rightarrow> string" where
  "hash_loop hashobj block rest =
     (if block = [] then hashobj
      else hash_loop (hashobj @ block) (take bsize rest) (drop bsize rest))"
  by pat_completeness auto
termination
  by (relation "measure (\<lambda>(hashobj, block, rest). length block + length rest)")
     (auto simp: min_def neq_Nil_conv)

declare hash_loop.simps [simp del]

definition get_file_hash :: "env \<Rightarrow> filesys \<Rightarrow> path \<Rightarrow> exn + string" where
  "get_file_hash ev fsys filepath =
     (case open_read fsys filepath of
        Inl e \<Rightarrow> Inl e
      | Inr content \<Rightarrow> Inr (sha256 ev (hash_loop [] (take bsize content) (drop bsize content))))"

subsection \<open>Listing and restoring\<close>

text \<open>
  The operations return \<open>Some False\<close> for the Python value False and \<open>None\<close> where the
  Python function ends without a return statement. \<open>not cmap\<close> holds of the missing
  directory and of the empty dictionary.
\<close>

text \<open>\<open>if not name: name = default\<close>, for an argument that may be absent or empty.\<close>

definition name_or :: "string option \<Rightarrow> string \<Rightarrow> string" where
  "name_or name_arg dflt =
     (case name_arg of None \<Rightarrow> dflt | Some s \<Rightarrow> (if s = [] then dflt else s))"

definition run_list :: "BuildType \<Rightarrow> bool \<Rightarrow> world \<Rightarrow> (exn + bool option) \<times> world" where
  "run_list bt long_format w =
     (let get_entry_str = (if long_format then path else name)
      in case get_config_dir bt True w of
           (Inl x, w1) \<Rightarrow> (Inl x, w1)
         | (Inr (cdir, cmap), w1) \<Rightarrow>
             (case cmap of
                None \<Rightarrow> (Inr (Some False), w1)
              | Some [] \<Rightarrow> (Inr (Some False), w1)
              | Some m \<Rightarrow>
                  (Inr None,
                   w1\<lparr>out := out w1
                        @ map (\<lambda>e. get_entry_str e @ [CHR 0x0A]) (sort_key name (map snd m))\<rparr>)))"

definition run_config ::
  "env \<Rightarrow> BuildType \<Rightarrow> string option \<Rightarrow> world \<Rightarrow> (exn + bool option) \<times> world" where
  "run_config ev bt name_arg w =
     (let nm = name_or name_arg get_default_config_name
      in case get_config_dir bt True w of
           (Inl x, w1) \<Rightarrow> (Inl x, w1)
         | (Inr (cdir, cmap), w1) \<Rightarrow>
             (case cmap of
                None \<Rightarrow> (Inr (Some False), w1)
              | Some [] \<Rightarrow> (Inr (Some False), w1)
              | Some m \<Rightarrow>
                  (case map_of m nm of
                     None \<Rightarrow>
                       (Inr (Some False),
                        w1\<lparr>err := err w1 @ [''config file not found: '' @ nm @ [CHR 0x0A]]\<rparr>)
                   | Some cfile \<Rightarrow>
                       (case copy_file ev (path cfile) (get_build_config_file_path bt) w1 of
                          (Some x, w2) \<Rightarrow> (Inl x, w2)
                        | (None, w2) \<Rightarrow> (Inr None, w2)))))"

subsection \<open>Backing up\<close>

text \<open>Decimal numerals, as the f-string prints \<open>revno\<close>.\<close>

fun str_nat :: "nat \<Rightarrow> string" where
  "str_nat n =
     (if n < 10 then [char_of (48 + n)]
      else str_nat (n div 10) @ [char_of (48 + n mod 10)])"

definition pad2 :: "nat \<Rightarrow> string" where
  "pad2 n = (if n < 10 then ''0'' @ str_nat n else str_nat n)"

text \<open>\<open>date_today.strftime("config_%Y-%m-%d")\<close>.\<close>

definition get_default_backup_name :: "env \<Rightarrow> string" where
  "get_default_backup_name ev =
     (case today ev of (y, m, d) \<Rightarrow> ''config_'' @ str_nat y @ ''-'' @ pad2 m @ ''-'' @ pad2 d)"

text \<open>The generator \<open>fgen\<close>: its element of index 0 is the base name, then come the revisions.\<close>

definition fgen :: "string \<Rightarrow> nat \<Rightarrow> string" where
  "fgen base k = (if k = 0 then base else base @ ''-r'' @ str_nat k)"

text \<open>
  The loop over \<open>fgen\<close>, from the element of index \<open>k\<close> on. It ends with \<open>want_copy\<close>
  and the name reached, or with an exception.
\<close>

partial_function (option) probe_loop ::
  "env \<Rightarrow> (string \<times> DirEntry) list \<Rightarrow> string \<Rightarrow> string \<Rightarrow> nat \<Rightarrow> world
     \<Rightarrow> ((exn + bool \<times> string) \<times> world) option" where
  "probe_loop ev cmap bcfile_hash base k w =
     (case map_of cmap (fgen base k) of
        None \<Rightarrow> Some (Inr (True, fgen base k), w)
      | Some cfile \<Rightarrow>
          (case get_file_hash ev (files w) (path cfile) of
             Inl x \<Rightarrow> Some (Inl x, w)
           | Inr cfile_hash \<Rightarrow>
               (if bcfile_hash = cfile_hash
                then Some (Inr (False, fgen base k),
                           w\<lparr>out := out w @ [''File not changed: '' @ fgen base k @ [CHR 0x0A]]\<rparr>)
                else probe_loop ev cmap bcfile_hash base (Suc k) w)))"

declare probe_loop.simps [code]

text \<open>\<open>check_is_git_dir\<close> and \<open>run_git_commit_file\<close>; \<open>EX_OK\<close> is 0.\<close>

definition check_is_git_dir :: "env \<Rightarrow> path \<Rightarrow> world \<Rightarrow> (exn + bool) \<times> world" where
  "check_is_git_dir ev dirpath w =
     (let w1 = w\<lparr>calls := calls w @ [Subprocess [''git'', ''rev-parse'', ''--show-toplevel''] dirpath]\<rparr>
      in case git_rev_parse ev dirpath of
           Inl x \<Rightarrow> (Inl x, w)
         | Inr returncode \<Rightarrow> (Inr (returncode = 0), w1))"

definition run_git_commit_file ::
  "env \<Rightarrow> path \<Rightarrow> path list \<Rightarrow> string \<Rightarrow> world \<Rightarrow> exn option \<times> world" where
  "run_git_commit_file ev dirpath filepaths commit_text w =
     (let w1 = w\<lparr>calls := calls w @ [Subprocess ([''git'', ''add''] @ filepaths) dirpath]\<rparr>
      in if git_add ev \<noteq> 0 then (Some CalledProcessError, w1)
         else (let w2 = w1\<lparr>calls := calls w1
                         @ [Subprocess ([''git'', ''commit'', ''-m'', commit_text] @ filepaths) dirpath]\<rparr>
               in if git_commit ev \<noteq> 0 then (Some CalledProcessError, w2) else (None, w2)))"

text \<open>The last part of \<open>run_backup\<close>, from the assignment of \<open>cfile\<close> on.\<close>

definition backup_copy ::
  "env \<Rightarrow> path \<Rightarrow> path \<Rightarrow> string \<Rightarrow> bool \<Rightarrow> world \<Rightarrow> (exn + bool option) \<times> world" where
  "backup_copy ev bcfile cdir nm want_copy w =
     (let cfile = path_join cdir nm;
          cfile_link = path_join cdir get_default_config_name
      in if want_copy
         then (case copy_file ev bcfile cfile w of
                 (Some x, w1) \<Rightarrow> (Inl x, w1)
               | (None, w1) \<Rightarrow>
                   (case (case os_unlink cfile_link w1 of
                            (Some FileNotFoundError, w') \<Rightarrow> (None, w')
                          | other \<Rightarrow> other) of
                      (Some x, w2) \<Rightarrow> (Inl x, w2)
                    | (None, w2) \<Rightarrow>
                        (case os_symlink (basename cfile) cfile_link w2 of
                           (Some x, w3) \<Rightarrow> (Inl x, w3)
                         | (None, w3) \<Rightarrow>
                             (case check_is_git_dir ev cdir w3 of
                                (Inl x, w4) \<Rightarrow> (Inl x, w4)
                              | (Inr False, w4) \<Rightarrow> (Inr None, w4)
                              | (Inr True, w4) \<Rightarrow>
                                  (case run_git_commit_file ev cdir [cfile, cfile_link]
                                          ''update config'' w4 of
                                     (Some x, w5) \<Rightarrow> (Inl x, w5)
                                   | (None, w5) \<Rightarrow> (Inr None, w5))))))
         else (Inr None, w))"

text \<open>
  \<open>run_backup\<close>. The result is None when the loop over \<open>fgen\<close> does not end.
  \<open>want_copy\<close> starts as False and is set in the branch of the missing directory and in
  the loop only.
\<close>

definition run_backup ::
  "env \<Rightarrow> BuildType \<Rightarrow> string option \<Rightarrow> world \<Rightarrow> ((exn + bool option) \<times> world) option" where
  "run_backup ev bt name_arg w =
     (let nm = name_or name_arg (get_default_backup_name ev);
          bcfile = get_build_config_file_path bt
      in case get_file_hash ev (files w) bcfile of
           Inl x \<Rightarrow> Some (Inl x, w)
         | Inr bcfile_hash \<Rightarrow>
             (case get_config_dir bt False w of
                (Inl x, w1) \<Rightarrow> Some (Inl x, w1)
              | (Inr (cdir, cmap), w1) \<Rightarrow>
                  (case (case cmap of
                           None \<Rightarrow>
                             (case makedirs cdir w1 of
                                (Some x, w2) \<Rightarrow> Some (Inl x, w2)
                              | (None, w2) \<Rightarrow> Some (Inr (True, nm), w2))
                         | Some m \<Rightarrow>
                             (if map_of m nm \<noteq> None then probe_loop ev m bcfile_hash nm 0 w1
                              else Some (Inr (False, nm), w1))) of
                     None \<Rightarrow> None
                   | Some (Inl x, w2) \<Rightarrow> Some (Inl x, w2)
                   | Some (Inr (want_copy, nm1), w2) \<Rightarrow>
                       Some (backup_copy ev bcfile cdir nm1 want_copy w2))))"

text \<open>
  How \<open>run_backup\<close> ends after a copy: with the error of starting \<open>git rev-parse\<close>,
  with CalledProcessError when the directory is in a git repository and \<open>git add\<close> or
  \<open>git commit\<close> fails, and with None otherwise.
\<close>

definition git_outcome :: "env \<Rightarrow> path \<Rightarrow> exn + bool option" where
  "git_outcome ev cdir =
     (case git_rev_parse ev cdir of
        Inl x \<Rightarrow> Inl x
      | Inr returncode \<Rightarrow>
          (if returncode = 0 \<and> (git_add ev \<noteq> 0 \<or> git_commit ev \<noteq> 0)
           then Inl CalledProcessError else Inr None))"

section \<open>An example installation\<close>

text \<open>
  A build directory and a config store for the buildroot variant, used where a property
  is run on concrete data. The digest function of the example is the identity, which
  tells any two contents apart.
\<close>

definition ex_env :: env where
  "ex_env = \<lparr>sha256 = (\<lambda>s. s), today = (2024, 1, 1), tmp_token = ''k3x9q2ab'', fault = None,
             git_rev_parse = (\<lambda>p. Inr 128), git_add = 0, git_commit = 0\<rparr>"

definition ex_info :: BuildInfo where
  "ex_info = \<lparr>src_dir = ''/src'', build_dir = ''/build'', config_root = ''/store''\<rparr>"

definition ex_bt :: BuildType where
  "ex_bt = new_build_type BuildrootBuildType ex_info None"

text \<open>A store that holds one backup of today with another content, and entries to skip.\<close>

definition ex_files :: filesys where
  "ex_files =
     [(''/build'', Dir), (''/build/.config'', RegFile ''CONFIG_A=y''),
      (''/store'', Dir), (''/store/buildroot'', Dir),
      (''/store/buildroot/config_2024-01-01'', RegFile ''CONFIG_A=n''),
      (''/store/buildroot/latest'', SymLink ''config_2024-01-01''),
      (''/store/buildroot/.hidden'', RegFile ''x''),
      (''/store/buildroot/README.md'', RegFile ''x''),
      (''/store/buildroot/x.tmp'', RegFile ''x''),
      (''/store/buildroot/sub'', Dir),
      (''/store/buildroot/dangling'', SymLink ''nowhere'')]"

definition ex_world :: world where
  "ex_world = \<lparr>files = ex_files, out = [], err = [], calls = []\<rparr>"

text \<open>A store whose first revision of today has the content of the build config file.\<close>

definition ex_world_same :: world where
  "ex_world_same =
     \<lparr>files = ex_files @ [(''/store/buildroot/config_2024-01-01-r1'', RegFile ''CONFIG_A=y'')],
      out = [], err = [], calls = []\<rparr>"

text \<open>A store directory that exists and holds nothing that the scanner lists.\<close>

definition ex_world_empty :: world where
  "ex_world_empty =
     \<lparr>files = [(''/build'', Dir), (''/build/.config'', RegFile ''CONFIG_A=y''),
               (''/store'', Dir), (''/store/buildroot'', Dir),
               (''/store/buildroot/.hidden'', RegFile ''x''),
               (''/store/buildroot/README.md'', RegFile ''x''),
               (''/store/buildroot/x.tmp'', RegFile ''x'')],
      out = [], err = [], calls = []\<rparr>"

text \<open>A store in which the directory of the build type is missing.\<close>

definition ex_world_missing :: world where
  "ex_world_missing =
     \<lparr>files = [(''/build'', Dir), (''/build/.config'', RegFile ''CONFIG_A=y''), (''/store'', Dir)],
      out = [], err = [], calls = []\<rparr>"

section \<open>Detection: properties\<close>

text \<open>
  The key that the specification gives the generic variant: the base name of the build
  directory, its leading dots removed, cut at its first dot.
\<close>

text \<open>The entry that \<open>os.scandir\<close> gives for the name \<open>n\<close> in the directory \<open>d\<close>.\<close>

definition mk_entry :: "path \<Rightarrow> string \<Rightarrow> DirEntry" where
  "mk_entry d n = \<lparr>name = n, path = path_join d n\<rparr>"

definition spec_generic_key :: "path \<Rightarrow> string" where
  "spec_generic_key p = takeWhile (\<lambda>x. x \<noteq> dot) (dropWhile (\<lambda>x. x = dot) (basename p))"

lemma get_build_type_map_values:
  "map snd (fst get_build_type_map) = KNOWN_BUILD_TYPES"
  by (simp add: get_build_type_map_def KNOWN_BUILD_TYPES_def add_build_type_def)

lemma get_build_type_map_linux:
  "map_of (snd get_build_type_map) ''linux'' = Some LinuxBuildType"
  by (simp add: get_build_type_map_def KNOWN_BUILD_TYPES_def add_build_type_def)

lemma normalise_linux:
  "normpath (strip_char slash (lower ''linux'')) = ''linux''"
  by (simp add: normpath_def strip_char_def lstrip_char_def rstrip_char_def lower_def
      lower_char_def slash_def dot_def startswith_def)

lemma select_build_type_auto:
  "select_build_type None i fsys = auto_detect KNOWN_BUILD_TYPES i fsys"
  by (simp add: select_build_type_def case_prod_beta get_build_type_map_values)

lemma auto_detect_first:
  "n < length cs \<Longrightarrow>
   detect (new_build_type (cs ! n) i None) True fsys = Inr (True, bt) \<Longrightarrow>
   (\<forall>m<n. \<exists>b. detect (new_build_type (cs ! m) i None) True fsys = Inr (False, b)) \<Longrightarrow>
   auto_detect cs i fsys = Inr bt"
proof (induction cs arbitrary: n)
  case Nil
  then show ?case by simp
next
  case (Cons c cs)
  show ?case
  proof (cases n)
    case 0
    with Cons.prems show ?thesis by simp
  next
    case (Suc k)
    from Cons.prems(3) Suc obtain b where
      b: "detect (new_build_type c i None) True fsys = Inr (False, b)"
      by fastforce
    have "\<forall>m<k. \<exists>b. detect (new_build_type (cs ! m) i None) True fsys = Inr (False, b)"
      using Cons.prems(3) Suc by fastforce
    with Cons.IH [of k] Cons.prems(1,2) Suc
    have "auto_detect cs i fsys = Inr bt" by simp
    with b show ?thesis by simp
  qed
qed

text \<open>
  C4. Without a type argument the variants are tried in the order linux, buildroot,
  buildroot-busybox, generic, each on a fresh instance and with \<open>guess_ckey\<close> set, and
  the first whose \<open>detect\<close> answers True is selected: when the variant of index \<open>n\<close>
  answers True and all before it answer False, the selection is its instance. In
  particular a source tree that both the buildroot and the generic detector recognise
  gives the buildroot variant.
\<close>

theorem auto_detection_order:
  "map snd (fst get_build_type_map)
     = [LinuxBuildType, BuildrootBuildType, BuildrootBusyboxBuildType, GenericBuildType]
   \<and> (\<forall>n bt. n < length (map snd (fst get_build_type_map))
         \<and> detect (new_build_type (map snd (fst get_build_type_map) ! n) i None) True fsys
             = Inr (True, bt)
         \<and> (\<forall>m<n. \<exists>b. detect (new_build_type (map snd (fst get_build_type_map) ! m) i None)
                          True fsys = Inr (False, b))
         \<longrightarrow> select_build_type None i fsys = Inr bt)
   \<and> (\<forall>b g. detect (new_build_type BuildrootBuildType i None) True fsys = Inr (True, b)
         \<and> detect (new_build_type GenericBuildType i None) True fsys = Inr (True, g)
         \<longrightarrow> select_build_type None i fsys = Inr b \<and> cls b = BuildrootBuildType)"
proof (intro conjI allI impI)
  show "map snd (fst get_build_type_map)
     = [LinuxBuildType, BuildrootBuildType, BuildrootBusyboxBuildType, GenericBuildType]"
    by (simp add: get_build_type_map_values KNOWN_BUILD_TYPES_def)
next
  fix n bt
  assume "n < length (map snd (fst get_build_type_map))
         \<and> detect (new_build_type (map snd (fst get_build_type_map) ! n) i None) True fsys
             = Inr (True, bt)
         \<and> (\<forall>m<n. \<exists>b. detect (new_build_type (map snd (fst get_build_type_map) ! m) i None)
                          True fsys = Inr (False, b))"
  then show "select_build_type None i fsys = Inr bt"
    unfolding get_build_type_map_values select_build_type_auto
    using auto_detect_first [of n KNOWN_BUILD_TYPES i fsys bt] by blast
next
  fix b g
  assume a: "detect (new_build_type BuildrootBuildType i None) True fsys = Inr (True, b)
         \<and> detect (new_build_type GenericBuildType i None) True fsys = Inr (True, g)"
  then show "select_build_type None i fsys = Inr b"
    by (simp add: select_build_type_auto KNOWN_BUILD_TYPES_def new_build_type_def)
  from a show "cls b = BuildrootBuildType"
    by (auto simp: new_build_type_def split: sum.splits exn.splits)
qed

theorem auto_detection_order_witness:
  "detect (new_build_type BuildrootBuildType
            \<lparr>src_dir = ''/src'', build_dir = ''/build'', config_root = ''/store''\<rparr> None) True
          [(''/src'', Dir), (''/src/Makefile'', RegFile ''# Makefile for buildroot\<newline>all:\<newline>'')]
       = Inr (True, \<lparr>cls = BuildrootBuildType,
             info = \<lparr>src_dir = ''/src'', build_dir = ''/build'', config_root = ''/store''\<rparr>,
             ckey = ''buildroot''\<rparr>)
   \<and> detect (new_build_type GenericBuildType
            \<lparr>src_dir = ''/src'', build_dir = ''/build'', config_root = ''/store''\<rparr> None) True
          [(''/src'', Dir), (''/src/Makefile'', RegFile ''# Makefile for buildroot\<newline>all:\<newline>'')]
       = Inr (True, \<lparr>cls = GenericBuildType,
             info = \<lparr>src_dir = ''/src'', build_dir = ''/build'', config_root = ''/store''\<rparr>,
             ckey = ''build''\<rparr>)
   \<and> select_build_type None
          \<lparr>src_dir = ''/src'', build_dir = ''/build'', config_root = ''/store''\<rparr>
          [(''/src'', Dir), (''/src/Makefile'', RegFile ''# Makefile for buildroot\<newline>all:\<newline>'')]
       = Inr \<lparr>cls = BuildrootBuildType,
             info = \<lparr>src_dir = ''/src'', build_dir = ''/build'', config_root = ''/store''\<rparr>,
             ckey = ''buildroot''\<rparr>"
proof -
  let ?i = "\<lparr>src_dir = ''/src'', build_dir = ''/build'', config_root = ''/store''\<rparr>"
  let ?fs = "[(''/src'', Dir), (''/src/Makefile'', RegFile ''# Makefile for buildroot\<newline>all:\<newline>'')]"
  have b: "detect (new_build_type BuildrootBuildType ?i None) True ?fs
       = Inr (True, \<lparr>cls = BuildrootBuildType, info = ?i, ckey = ''buildroot''\<rparr>)"
    by code_simp
  have g: "detect (new_build_type GenericBuildType ?i None) True ?fs
       = Inr (True, \<lparr>cls = GenericBuildType, info = ?i, ckey = ''build''\<rparr>)"
    by code_simp
  from auto_detection_order [of ?i ?fs] b g show ?thesis by blast
qed

text \<open>
  C5. The detector of the linux variant answers False whatever \<open>guess_ckey\<close> is, so the
  explicit type \<open>linux\<close> ends in the error "build type mismatch" on every source tree.
\<close>

theorem linux_explicit_mismatch:
  "detect \<lparr>cls = LinuxBuildType, info = i, ckey = k\<rparr> False fsys
     = Inr (False, \<lparr>cls = LinuxBuildType, info = i, ckey = k\<rparr>)
   \<and> select_build_type (Some ''linux'') i fsys
     = Inl (RuntimeError [''build type mismatch'', ''linux''])"
  by (simp add: select_build_type_def Let_def case_prod_beta normalise_linux
      get_build_type_map_linux new_build_type_def)

lemma takeWhile_append_Nil:
  "takeWhile P ys = [] \<Longrightarrow> takeWhile P (xs @ ys) = takeWhile P xs"
  by (induction xs) auto

lemma takeWhile_rstrip_char:
  "takeWhile (\<lambda>x. x \<noteq> c) (rstrip_char c s) = takeWhile (\<lambda>x. x \<noteq> c) s"
proof -
  let ?t = "rev (takeWhile (\<lambda>x. x = c) (rev s))"
  have s: "s = rstrip_char c s @ ?t"
    unfolding rstrip_char_def
    by (metis rev_append rev_rev_ident takeWhile_dropWhile_id)
  have t: "takeWhile (\<lambda>x. x \<noteq> c) ?t = []"
  proof -
    have "\<forall>x\<in>set ?t. x = c" by (auto dest: set_takeWhileD)
    then show ?thesis by (cases ?t) auto
  qed
  have "takeWhile (\<lambda>x. x \<noteq> c) (rstrip_char c s @ ?t) = takeWhile (\<lambda>x. x \<noteq> c) (rstrip_char c s)"
    using t by (rule takeWhile_append_Nil)
  with s show ?thesis by simp
qed

lemma generic_key_eq:
  "partition_head dot (strip_char dot (basename p)) = spec_generic_key p"
  by (simp add: partition_head_def strip_char_def lstrip_char_def spec_generic_key_def
      takeWhile_rstrip_char)

text \<open>
  C9. On every instance of the generic variant \<open>detect\<close> answers True; with
  \<open>guess_ckey\<close> set it assigns the key of the specification, computed from the build
  directory, and without it the key is kept. The base name \<open>.foo.bar\<close> gives the key
  \<open>foo\<close>.
\<close>

theorem generic_detect_key:
  "detect \<lparr>cls = GenericBuildType, info = i, ckey = k\<rparr> True fsys
     = Inr (True, \<lparr>cls = GenericBuildType, info = i, ckey = spec_generic_key (build_dir i)\<rparr>)
   \<and> detect \<lparr>cls = GenericBuildType, info = i, ckey = k\<rparr> False fsys
     = Inr (True, \<lparr>cls = GenericBuildType, info = i, ckey = k\<rparr>)
   \<and> spec_generic_key ''/home/user/.foo.bar'' = ''foo''"
  by (simp add: generic_key_eq) (simp add: spec_generic_key_def basename_def slash_def dot_def)

section \<open>The scanner: properties\<close>

lemma path_join_child:
  "n \<noteq> [] \<Longrightarrow> slash \<notin> set n \<Longrightarrow> path_join d [] @ n = path_join d n"
  by (cases n) (auto simp: path_join_def startswith_def)

lemma child_name_iff:
  "child_name d p = Some n \<longleftrightarrow> n \<noteq> [] \<and> slash \<notin> set n \<and> p = path_join d n"
proof
  assume a: "child_name d p = Some n"
  then have n: "n = drop (length (path_join d [])) p" "n \<noteq> []" "slash \<notin> set n"
    and pre: "take (length (path_join d [])) p = path_join d []"
    by (auto simp: child_name_def Let_def startswith_def split: if_splits)
  have "p = path_join d [] @ n"
    using pre n(1) by (metis append_take_drop_id)
  with n path_join_child show "n \<noteq> [] \<and> slash \<notin> set n \<and> p = path_join d n" by simp
next
  assume a: "n \<noteq> [] \<and> slash \<notin> set n \<and> p = path_join d n"
  define pre where "pre = path_join d []"
  have p: "p = pre @ n" using a path_join_child [of n d] by (simp add: pre_def)
  have "child_name d (pre @ n) = Some n"
    using a by (simp add: child_name_def Let_def startswith_def pre_def [symmetric])
  with p show "child_name d p = Some n" by simp
qed

lemma scandir_entries:
  "os_scandir fsys d = Inr es \<Longrightarrow>
   set es = {mk_entry d n | n. n \<noteq> [] \<and> slash \<notin> set n \<and> lookup fsys (path_join d n) \<noteq> None}"
proof -
  assume a: "os_scandir fsys d = Inr es"
  then have es: "es = concat (map (\<lambda>p. case child_name d p of
                                   None \<Rightarrow> []
                                 | Some n \<Rightarrow> [\<lparr>name = n, path = path_join d n\<rparr>])
                           (remdups (map fst fsys)))"
    by (auto simp: os_scandir_def split: sum.splits node.splits)
  have "set es = {mk_entry d n | n. \<exists>p\<in>fst ` set fsys. child_name d p = Some n}"
  proof (intro set_eqI iffI)
    fix e assume "e \<in> set es"
    then obtain p n where "p \<in> fst ` set fsys" "child_name d p = Some n" "e = mk_entry d n"
      unfolding es by (fastforce simp: mk_entry_def split: option.splits)
    then show "e \<in> {mk_entry d n | n. \<exists>p\<in>fst ` set fsys. child_name d p = Some n}" by blast
  next
    fix e assume "e \<in> {mk_entry d n | n. \<exists>p\<in>fst ` set fsys. child_name d p = Some n}"
    then obtain p n where p: "p \<in> fst ` set fsys" "child_name d p = Some n" "e = mk_entry d n"
      by blast
    then have "e \<in> set (case child_name d p of None \<Rightarrow> []
                         | Some n \<Rightarrow> [\<lparr>name = n, path = path_join d n\<rparr>])"
      by (simp add: mk_entry_def)
    with p(1) show "e \<in> set es" unfolding es by auto
  qed
  also have "\<dots> = {mk_entry d n | n. n \<noteq> [] \<and> slash \<notin> set n \<and> lookup fsys (path_join d n) \<noteq> None}"
    by (auto simp: child_name_iff lookup_def map_of_eq_None_iff)
  finally show ?thesis .
qed

lemma scan_config_dir_filter:
  "scan_config_dir fsys es = Inr r \<Longrightarrow> r = filter (\<lambda>e. is_file fsys (path e) = Inr True) es"
  by (induction es arbitrary: r) (auto split: sum.splits if_splits)

lemma scan_config_dir_total:
  "(\<forall>e\<in>set es. \<exists>b. is_file fsys (path e) = Inr b) \<Longrightarrow> \<exists>r. scan_config_dir fsys es = Inr r"
  by (induction es) (auto split: sum.splits)

lemma fold_update_entries:
  "(\<forall>e\<in>set es. e = mk_entry d (name e)) \<Longrightarrow>
   map_of (fold (\<lambda>e cmap. AList.update (name e) e cmap) es m) n
     = (if n \<in> name ` set es then Some (mk_entry d n) else map_of m n)"
proof (induction es arbitrary: m)
  case Nil
  then show ?case by simp
next
  case (Cons e es)
  then show ?case by (auto simp: update_conv')
qed

lemma is_file_True_iff:
  "is_file fsys p = Inr True \<longleftrightarrow> (\<exists>c. os_stat fsys p = Inr (RegFile c))"
  by (auto simp: is_file_def split: sum.splits node.splits exn.splits)

lemma name_ok_iff:
  "name_ok n \<longleftrightarrow> \<not> startswith n ''.'' \<and> \<not> startswith n ''README'' \<and> \<not> endswith n ''.tmp''"
  by (simp add: name_ok_def startswith_def)

lemma stat_follow_lookup: "stat_follow k fsys p = Inr x \<Longrightarrow> lookup fsys p \<noteq> None"
  by (cases k) (auto split: option.splits)

lemma os_stat_lookup: "os_stat fsys p = Inr x \<Longrightarrow> lookup fsys p \<noteq> None"
  unfolding os_stat_def by (rule stat_follow_lookup)

lemma list_config_dir_map:
  assumes "list_config_dir fsys d = Inr cmap"
  shows "map_of cmap n =
     (if n \<noteq> [] \<and> slash \<notin> set n \<and> (\<exists>c. os_stat fsys (path_join d n) = Inr (RegFile c))
         \<and> \<not> startswith n ''.'' \<and> \<not> startswith n ''README'' \<and> \<not> endswith n ''.tmp''
      then Some \<lparr>name = n, path = path_join d n\<rparr> else None)"
proof -
  from assms obtain es fs where es: "os_scandir fsys d = Inr es"
    and fs: "scan_config_dir fsys es = Inr fs"
    and cmap: "cmap = fold (\<lambda>e cmap. AList.update (name e) e cmap)
                         (filter (\<lambda>e. name_ok (name e)) fs) []"
    by (auto simp: list_config_dir_def split: sum.splits)
  let ?sel = "filter (\<lambda>e. name_ok (name e)) fs"
  have fs': "fs = filter (\<lambda>e. is_file fsys (path e) = Inr True) es"
    using fs by (rule scan_config_dir_filter)
  have ent: "\<forall>e\<in>set ?sel. e = mk_entry d (name e)"
    using scandir_entries [OF es] fs' by (auto simp: mk_entry_def)
  have names: "n \<in> name ` set ?sel \<longleftrightarrow>
      n \<noteq> [] \<and> slash \<notin> set n \<and> (\<exists>c. os_stat fsys (path_join d n) = Inr (RegFile c)) \<and> name_ok n"
  proof
    assume "n \<in> name ` set ?sel"
    then obtain e where e: "e \<in> set es" "is_file fsys (path e) = Inr True" "name_ok (name e)"
      "n = name e" using fs' by auto
    from e(1) scandir_entries [OF es] obtain m where
      m: "e = mk_entry d m" "m \<noteq> []" "slash \<notin> set m" by auto
    with e show "n \<noteq> [] \<and> slash \<notin> set n \<and> (\<exists>c. os_stat fsys (path_join d n) = Inr (RegFile c))
        \<and> name_ok n"
      by (simp add: mk_entry_def is_file_True_iff)
  next
    assume a: "n \<noteq> [] \<and> slash \<notin> set n \<and> (\<exists>c. os_stat fsys (path_join d n) = Inr (RegFile c))
        \<and> name_ok n"
    then have "lookup fsys (path_join d n) \<noteq> None" by (auto dest: os_stat_lookup)
    with a have "mk_entry d n \<in> set es" using scandir_entries [OF es] by auto
    moreover have "is_file fsys (path (mk_entry d n)) = Inr True"
      using a by (simp add: mk_entry_def is_file_True_iff)
    ultimately have "mk_entry d n \<in> set ?sel" using fs' a by (simp add: mk_entry_def)
    then have "name (mk_entry d n) \<in> name ` set ?sel" by (rule imageI)
    then show "n \<in> name ` set ?sel" by (simp add: mk_entry_def)
  qed
  show ?thesis
    unfolding cmap fold_update_entries [OF ent] names
    by (simp add: name_ok_iff mk_entry_def)
qed

lemma stat_follow_error:
  "stat_follow k fsys p = Inl e \<Longrightarrow> e = FileNotFoundError \<or> e = OSError"
  by (induction k arbitrary: p) (auto split: option.splits node.splits)

lemma is_file_result:
  "is_file fsys p \<noteq> Inl OSError \<Longrightarrow> \<exists>b. is_file fsys p = Inr b"
  using stat_follow_error [of MAXSYMLINKS fsys p]
  by (auto simp: is_file_def os_stat_def split: sum.splits node.splits exn.splits)

text \<open>
  C8. When the directory can be listed and none of its entries is a chain of links too
  long to follow, the scanner returns a map, and the map holds exactly the names \<open>n\<close>
  of the directory whose path resolves, links followed, to a regular file and that do
  not start with a dot, do not start with \<open>README\<close> and do not end with \<open>.tmp\<close>,
  each bound to its entry.
\<close>

theorem scanner_exact:
  assumes "os_scandir fsys d = Inr es"
      and "\<forall>e\<in>set es. is_file fsys (path e) \<noteq> Inl OSError"
  shows "\<exists>cmap. list_config_dir fsys d = Inr cmap
     \<and> (\<forall>n. map_of cmap n =
          (if n \<noteq> [] \<and> slash \<notin> set n \<and> (\<exists>c. os_stat fsys (path_join d n) = Inr (RegFile c))
              \<and> \<not> startswith n ''.'' \<and> \<not> startswith n ''README'' \<and> \<not> endswith n ''.tmp''
           then Some \<lparr>name = n, path = path_join d n\<rparr> else None))"
proof -
  from assms(2) have "\<forall>e\<in>set es. \<exists>b. is_file fsys (path e) = Inr b"
    by (blast dest: is_file_result)
  then obtain r where "scan_config_dir fsys es = Inr r"
    using scan_config_dir_total by blast
  with assms(1) obtain cmap where c: "list_config_dir fsys d = Inr cmap"
    by (simp add: list_config_dir_def)
  show ?thesis
  proof (intro exI conjI allI)
    show "list_config_dir fsys d = Inr cmap" by (rule c)
  next
    fix n
    show "map_of cmap n =
          (if n \<noteq> [] \<and> slash \<notin> set n \<and> (\<exists>c. os_stat fsys (path_join d n) = Inr (RegFile c))
              \<and> \<not> startswith n ''.'' \<and> \<not> startswith n ''README'' \<and> \<not> endswith n ''.tmp''
           then Some \<lparr>name = n, path = path_join d n\<rparr> else None)"
      by (rule list_config_dir_map [OF c])
  qed
qed

theorem scanner_exact_witness:
  "os_scandir ex_files ''/store/buildroot''
     = Inr (map (mk_entry ''/store/buildroot'')
          [''config_2024-01-01'', ''latest'', ''.hidden'', ''README.md'', ''x.tmp'', ''sub'',
           ''dangling''])
   \<and> list_all (\<lambda>e. is_file ex_files (path e) \<noteq> Inl OSError)
         (map (mk_entry ''/store/buildroot'')
          [''config_2024-01-01'', ''latest'', ''.hidden'', ''README.md'', ''x.tmp'', ''sub'',
           ''dangling''])
   \<and> (\<exists>cmap. list_config_dir ex_files ''/store/buildroot'' = Inr cmap
        \<and> map_of cmap ''config_2024-01-01''
            = Some \<lparr>name = ''config_2024-01-01'', path = ''/store/buildroot/config_2024-01-01''\<rparr>
        \<and> map_of cmap ''latest'' = Some \<lparr>name = ''latest'', path = ''/store/buildroot/latest''\<rparr>
        \<and> map_of cmap ''.hidden'' = None
        \<and> map_of cmap ''README.md'' = None
        \<and> map_of cmap ''x.tmp'' = None
        \<and> map_of cmap ''sub'' = None
        \<and> map_of cmap ''dangling'' = None)"
proof -
  let ?es = "map (mk_entry ''/store/buildroot'')
          [''config_2024-01-01'', ''latest'', ''.hidden'', ''README.md'', ''x.tmp'', ''sub'',
           ''dangling'']"
  have a: "os_scandir ex_files ''/store/buildroot'' = Inr ?es"
    by code_simp
  have b: "\<forall>e\<in>set ?es. is_file ex_files (path e) \<noteq> Inl OSError"
    by code_simp
  from scanner_exact [OF a b] obtain cmap where
    c: "list_config_dir ex_files ''/store/buildroot'' = Inr cmap" and
    m: "\<And>n. map_of cmap n =
          (if n \<noteq> [] \<and> slash \<notin> set n
              \<and> (\<exists>c. os_stat ex_files (path_join ''/store/buildroot'' n) = Inr (RegFile c))
              \<and> \<not> startswith n ''.'' \<and> \<not> startswith n ''README'' \<and> \<not> endswith n ''.tmp''
           then Some \<lparr>name = n, path = path_join ''/store/buildroot'' n\<rparr> else None)"
    by blast
  have s1: "os_stat ex_files ''/store/buildroot/config_2024-01-01'' = Inr (RegFile ''CONFIG_A=n'')"
    by code_simp
  have s2: "os_stat ex_files ''/store/buildroot/latest'' = Inr (RegFile ''CONFIG_A=n'')"
    by code_simp
  have s3: "os_stat ex_files ''/store/buildroot/sub'' = Inr Dir"
    by code_simp
  have s4: "os_stat ex_files ''/store/buildroot/dangling'' = Inl FileNotFoundError"
    by code_simp
  have j: "path_join ''/store/buildroot'' ''config_2024-01-01'' = ''/store/buildroot/config_2024-01-01''"
    "path_join ''/store/buildroot'' ''latest'' = ''/store/buildroot/latest''"
    "path_join ''/store/buildroot'' ''sub'' = ''/store/buildroot/sub''"
    "path_join ''/store/buildroot'' ''dangling'' = ''/store/buildroot/dangling''"
    by (simp_all add: path_join_def startswith_def endswith_def slash_def)
  have "map_of cmap ''config_2024-01-01''
            = Some \<lparr>name = ''config_2024-01-01'', path = ''/store/buildroot/config_2024-01-01''\<rparr>"
    by (simp add: m j s1 slash_def startswith_def endswith_def)
  moreover have "map_of cmap ''latest'' = Some \<lparr>name = ''latest'', path = ''/store/buildroot/latest''\<rparr>"
    by (simp add: m j s2 slash_def startswith_def endswith_def)
  moreover have "map_of cmap ''.hidden'' = None"
    by (simp add: m startswith_def)
  moreover have "map_of cmap ''README.md'' = None"
    by (simp add: m startswith_def)
  moreover have "map_of cmap ''x.tmp'' = None"
    by (simp add: m endswith_def)
  moreover have "map_of cmap ''sub'' = None"
    by (simp add: m j s3)
  moreover have "map_of cmap ''dangling'' = None"
    by (simp add: m j s4)
  moreover have "list_all (\<lambda>e. is_file ex_files (path e) \<noteq> Inl OSError) ?es"
    using b by (simp only: list_all_iff)
  ultimately show ?thesis using a c by blast
qed

lemma bsize_pos: "0 < bsize"
  by (simp add: bsize_def)

lemma hash_loop_all:
  "(block = [] \<longrightarrow> rest = []) \<Longrightarrow> hash_loop h block rest = h @ block @ rest"
proof (induction h block rest rule: hash_loop.induct)
  case (1 hashobj block rest)
  show ?case
  proof (cases "block = []")
    case True
    with 1 show ?thesis by (subst hash_loop.simps) simp
  next
    case False
    have "take bsize rest = [] \<longrightarrow> drop bsize rest = []"
      using bsize_pos by (cases rest) auto
    with 1 False show ?thesis by (subst hash_loop.simps) simp
  qed
qed

lemma get_file_hash_eq:
  "get_file_hash ev fsys p =
     (case open_read fsys p of Inl e \<Rightarrow> Inl e | Inr c \<Rightarrow> Inr (sha256 ev c))"
proof -
  have "hash_loop [] (take bsize c) (drop bsize c) = c" for c
    using hash_loop_all [of "take bsize c" "drop bsize c" "[]"] bsize_pos
    by (cases c) auto
  then show ?thesis by (simp add: get_file_hash_def split: sum.splits)
qed

lemma ex_sha256: "sha256 ex_env c = c"
  by (simp add: ex_env_def)

lemma get_config_dir_Some:
  "list_config_dir (files w) (get_config_dir_path bt) = Inr m \<Longrightarrow>
   get_config_dir bt verbose w = (Inr (get_config_dir_path bt, Some m), w)"
  by (simp add: get_config_dir_def)

lemma cmap_entry_readable:
  assumes "list_config_dir fsys d = Inr cmap" and "map_of cmap n = Some e"
  shows "\<exists>c. open_read fsys (path e) = Inr c"
proof -
  from list_config_dir_map [OF assms(1), of n] assms(2)
  obtain c where "os_stat fsys (path_join d n) = Inr (RegFile c)" "path e = path_join d n"
    by (auto split: if_splits)
  then show ?thesis by (simp add: open_read_def)
qed

lemma cmap_entry_hash:
  assumes "list_config_dir fsys d = Inr cmap" and "map_of cmap n = Some e"
  shows "\<exists>h. get_file_hash ev fsys (path e) = Inr h"
  using cmap_entry_readable [OF assms] by (auto simp: get_file_hash_def)

lemma probe_loop_skip:
  assumes "\<forall>j. i \<le> j \<and> j < k \<longrightarrow>
             (\<exists>e h'. map_of cmap (fgen base j) = Some e
                \<and> get_file_hash ev (files w) (path e) = Inr h' \<and> h' \<noteq> h)"
      and "i \<le> k"
  shows "probe_loop ev cmap h base i w = probe_loop ev cmap h base k w"
  using assms
proof (induction "k - i" arbitrary: i)
  case 0
  then show ?case by simp
next
  case (Suc d)
  then have lt: "i < k" by linarith
  with Suc.prems obtain e h' where e: "map_of cmap (fgen base i) = Some e"
    "get_file_hash ev (files w) (path e) = Inr h'" "h' \<noteq> h"
    by (metis order_refl)
  have step: "probe_loop ev cmap h base i w = probe_loop ev cmap h base (Suc i) w"
    by (subst probe_loop.simps) (use e in simp)
  have "probe_loop ev cmap h base (Suc i) w = probe_loop ev cmap h base k w"
  proof (rule Suc.hyps(1))
    show "d = k - Suc i" using Suc.hyps(2) by linarith
    show "\<forall>j. Suc i \<le> j \<and> j < k \<longrightarrow>
             (\<exists>e h'. map_of cmap (fgen base j) = Some e
                \<and> get_file_hash ev (files w) (path e) = Inr h' \<and> h' \<noteq> h)"
      using Suc.prems(1) by (metis Suc_leD)
    show "Suc i \<le> k" using lt by simp
  qed
  with step show ?case by simp
qed

lemma probe_loop_unchanged:
  assumes "map_of cmap (fgen base k) = Some e"
      and "get_file_hash ev (files w) (path e) = Inr h"
      and "\<forall>j<k. \<exists>e h'. map_of cmap (fgen base j) = Some e
                \<and> get_file_hash ev (files w) (path e) = Inr h' \<and> h' \<noteq> h"
  shows "probe_loop ev cmap h base 0 w
     = Some (Inr (False, fgen base k),
             w\<lparr>out := out w @ [''File not changed: '' @ fgen base k @ [CHR 0x0A]]\<rparr>)"
proof -
  have "probe_loop ev cmap h base 0 w = probe_loop ev cmap h base k w"
    by (rule probe_loop_skip) (use assms(3) in auto)
  also have "\<dots> = Some (Inr (False, fgen base k),
             w\<lparr>out := out w @ [''File not changed: '' @ fgen base k @ [CHR 0x0A]]\<rparr>)"
    by (subst probe_loop.simps) (use assms(1,2) in simp)
  finally show ?thesis .
qed

lemma probe_loop_copy:
  assumes "map_of cmap (fgen base k) = None"
      and "\<forall>j<k. \<exists>e h'. map_of cmap (fgen base j) = Some e
                \<and> get_file_hash ev (files w) (path e) = Inr h' \<and> h' \<noteq> h"
  shows "probe_loop ev cmap h base 0 w = Some (Inr (True, fgen base k), w)"
proof -
  have "probe_loop ev cmap h base 0 w = probe_loop ev cmap h base k w"
    by (rule probe_loop_skip) (use assms(2) in auto)
  also have "\<dots> = Some (Inr (True, fgen base k), w)"
    by (subst probe_loop.simps) (use assms(1) in simp)
  finally show ?thesis .
qed

lemma backup_copy_no_copy: "backup_copy ev bcfile cdir nm False w = (Inr None, w)"
  by (simp add: backup_copy_def)

section \<open>Backing up: properties\<close>

text \<open>
  C1. When the store directory exists and the requested name is not in its entry map,
  \<open>run_backup\<close> copies nothing: neither branch that sets \<open>want_copy\<close> is taken, and
  the world is left as it was.
\<close>

theorem backup_new_name_not_copied:
  assumes "list_config_dir (files w) (get_config_dir_path bt) = Inr cmap"
      and "map_of cmap (name_or name_arg (get_default_backup_name ev)) = None"
      and "get_file_hash ev (files w) (get_build_config_file_path bt) = Inr h"
  shows "run_backup ev bt name_arg w = Some (Inr None, w)"
  using assms
  by (simp add: run_backup_def get_config_dir_Some backup_copy_no_copy)

theorem backup_new_name_not_copied_witness:
  "list_config_dir (files ex_world_empty) (get_config_dir_path ex_bt) = Inr []
   \<and> name_or None (get_default_backup_name ex_env) = ''config_2024-01-01''
   \<and> get_file_hash ex_env (files ex_world_empty) (get_build_config_file_path ex_bt)
       = Inr ''CONFIG_A=y''
   \<and> run_backup ex_env ex_bt None ex_world_empty = Some (Inr None, ex_world_empty)"
proof -
  have a: "list_config_dir (files ex_world_empty) (get_config_dir_path ex_bt) = Inr []"
    by code_simp
  have n: "name_or None (get_default_backup_name ex_env) = ''config_2024-01-01''"
    by code_simp
  have "open_read (files ex_world_empty) (get_build_config_file_path ex_bt)
       = Inr ''CONFIG_A=y''"
    by code_simp
  then have h: "get_file_hash ex_env (files ex_world_empty) (get_build_config_file_path ex_bt)
       = Inr ''CONFIG_A=y''"
    by (simp add: get_file_hash_eq ex_sha256)
  have "map_of [] (name_or None (get_default_backup_name ex_env)) = (None :: DirEntry option)"
    by simp
  from backup_new_name_not_copied [OF a this h] a n h show ?thesis by simp
qed

text \<open>
  C3. When the candidate of index \<open>k\<close> is in the entry map with the hash of the build
  config file, and every candidate before it is in the map with another hash, so that the
  loop reaches it, \<open>run_backup\<close> returns without an exception, its only effect being
  the line \<open>File not changed\<close> with the name of that candidate on standard output: the
  file system, with the link \<open>latest\<close>, and the list of system calls are unchanged.
\<close>

theorem backup_unchanged:
  assumes "list_config_dir (files w) (get_config_dir_path bt) = Inr cmap"
      and "get_file_hash ev (files w) (get_build_config_file_path bt) = Inr h"
      and "map_of cmap (fgen (name_or name_arg (get_default_backup_name ev)) k) = Some e"
      and "get_file_hash ev (files w) (path e) = Inr h"
      and "\<forall>j<k. \<exists>e'. map_of cmap (fgen (name_or name_arg (get_default_backup_name ev)) j) = Some e'
             \<and> get_file_hash ev (files w) (path e') \<noteq> Inr h"
  shows "run_backup ev bt name_arg w
     = Some (Inr None,
         w\<lparr>out := out w @ [''File not changed: ''
                @ fgen (name_or name_arg (get_default_backup_name ev)) k @ [CHR 0x0A]]\<rparr>)"
proof -
  let ?nm = "name_or name_arg (get_default_backup_name ev)"
  have before: "\<forall>j<k. \<exists>e h'. map_of cmap (fgen ?nm j) = Some e
                \<and> get_file_hash ev (files w) (path e) = Inr h' \<and> h' \<noteq> h"
  proof (intro allI impI)
    fix j assume "j < k"
    with assms(5) obtain e' where e': "map_of cmap (fgen ?nm j) = Some e'"
      "get_file_hash ev (files w) (path e') \<noteq> Inr h" by blast
    from cmap_entry_hash [OF assms(1) e'(1)] obtain h' where
      "get_file_hash ev (files w) (path e') = Inr h'" by blast
    with e' show "\<exists>e h'. map_of cmap (fgen ?nm j) = Some e
                \<and> get_file_hash ev (files w) (path e) = Inr h' \<and> h' \<noteq> h" by auto
  qed
  have present: "map_of cmap ?nm \<noteq> None"
  proof (cases k)
    case 0
    with assms(3) show ?thesis by (simp add: fgen_def)
  next
    case (Suc k')
    with before have "\<exists>e. map_of cmap (fgen ?nm 0) = Some e" by blast
    then show ?thesis by (auto simp: fgen_def)
  qed
  have loop: "probe_loop ev cmap h ?nm 0 w
     = Some (Inr (False, fgen ?nm k),
             w\<lparr>out := out w @ [''File not changed: '' @ fgen ?nm k @ [CHR 0x0A]]\<rparr>)"
    using assms(3,4) before by (rule probe_loop_unchanged)
  show ?thesis
    using present
    by (simp add: run_backup_def assms(2) get_config_dir_Some [OF assms(1)] loop
        backup_copy_no_copy)
qed

theorem backup_unchanged_witness:
  "list_config_dir (files ex_world_same) (get_config_dir_path ex_bt)
     = Inr [(''config_2024-01-01'', mk_entry ''/store/buildroot'' ''config_2024-01-01''),
            (''latest'', mk_entry ''/store/buildroot'' ''latest''),
            (''config_2024-01-01-r1'', mk_entry ''/store/buildroot'' ''config_2024-01-01-r1'')]
   \<and> get_file_hash ex_env (files ex_world_same) (get_build_config_file_path ex_bt)
       = Inr ''CONFIG_A=y''
   \<and> fgen (name_or None (get_default_backup_name ex_env)) 0 = ''config_2024-01-01''
   \<and> fgen (name_or None (get_default_backup_name ex_env)) 1 = ''config_2024-01-01-r1''
   \<and> get_file_hash ex_env (files ex_world_same) ''/store/buildroot/config_2024-01-01''
       = Inr ''CONFIG_A=n''
   \<and> get_file_hash ex_env (files ex_world_same) ''/store/buildroot/config_2024-01-01-r1''
       = Inr ''CONFIG_A=y''
   \<and> run_backup ex_env ex_bt None ex_world_same
       = Some (Inr None,
           ex_world_same\<lparr>out := [''File not changed: config_2024-01-01-r1\<newline>'']\<rparr>)"
proof -
  let ?cmap = "[(''config_2024-01-01'', mk_entry ''/store/buildroot'' ''config_2024-01-01''),
            (''latest'', mk_entry ''/store/buildroot'' ''latest''),
            (''config_2024-01-01-r1'', mk_entry ''/store/buildroot'' ''config_2024-01-01-r1'')]"
  let ?nm = "name_or None (get_default_backup_name ex_env)"
  have a: "list_config_dir (files ex_world_same) (get_config_dir_path ex_bt) = Inr ?cmap"
    by code_simp
  have "open_read (files ex_world_same) (get_build_config_file_path ex_bt)
       = Inr ''CONFIG_A=y''"
    by code_simp
  then have h: "get_file_hash ex_env (files ex_world_same) (get_build_config_file_path ex_bt)
       = Inr ''CONFIG_A=y''"
    by (simp add: get_file_hash_eq ex_sha256)
  have f0: "fgen ?nm 0 = ''config_2024-01-01''" by code_simp
  have f1: "fgen ?nm 1 = ''config_2024-01-01-r1''" by code_simp
  have "open_read (files ex_world_same) ''/store/buildroot/config_2024-01-01''
       = Inr ''CONFIG_A=n''" by code_simp
  then have h0: "get_file_hash ex_env (files ex_world_same) ''/store/buildroot/config_2024-01-01''
       = Inr ''CONFIG_A=n''" by (simp add: get_file_hash_eq ex_sha256)
  have "open_read (files ex_world_same) ''/store/buildroot/config_2024-01-01-r1''
       = Inr ''CONFIG_A=y''" by code_simp
  then have h1: "get_file_hash ex_env (files ex_world_same) ''/store/buildroot/config_2024-01-01-r1''
       = Inr ''CONFIG_A=y''" by (simp add: get_file_hash_eq ex_sha256)
  have hit: "map_of ?cmap (fgen ?nm 1) = Some (mk_entry ''/store/buildroot'' ''config_2024-01-01-r1'')"
    unfolding f1 by simp
  have hit_hash: "get_file_hash ex_env (files ex_world_same)
        (path (mk_entry ''/store/buildroot'' ''config_2024-01-01-r1'')) = Inr ''CONFIG_A=y''"
    using h1 by (simp add: mk_entry_def path_join_def startswith_def endswith_def slash_def)
  have before: "\<forall>j<1. \<exists>e'. map_of ?cmap (fgen ?nm j) = Some e'
             \<and> get_file_hash ex_env (files ex_world_same) (path e') \<noteq> Inr ''CONFIG_A=y''"
    using h0 f0 by (simp add: mk_entry_def path_join_def startswith_def endswith_def slash_def)
  have o: "out ex_world_same = []" by (simp add: ex_world_same_def)
  from backup_unchanged [OF a h hit hit_hash before] a h f0 f1 h0 h1 o
  show ?thesis by simp
qed

section \<open>Listing and restoring: properties\<close>

lemma get_config_dir_missing:
  "list_config_dir (files w) (get_config_dir_path bt) = Inl FileNotFoundError \<Longrightarrow>
   get_config_dir bt verbose w
     = (Inr (get_config_dir_path bt, None),
        if verbose
        then w\<lparr>err := err w @ [''config store directory missing: '' @ get_config_dir_path bt
                               @ [CHR 0x0A]]\<rparr>
        else w)"
  by (simp add: get_config_dir_def Let_def)

lemma get_config_dir_result:
  assumes "get_config_dir bt verbose w = (Inr (cdir, cmap), w1)"
  shows "cdir = get_config_dir_path bt
     \<and> (case cmap of
          None \<Rightarrow> list_config_dir (files w) cdir = Inl FileNotFoundError
                 \<and> w1 = (if verbose
                         then w\<lparr>err := err w @ [''config store directory missing: '' @ cdir
                               @ [CHR 0x0A]]\<rparr>
                         else w)
        | Some m \<Rightarrow> list_config_dir (files w) cdir = Inr m \<and> w1 = w)"
  using assms
  by (auto simp: get_config_dir_def Let_def split: sum.splits exn.splits)

text \<open>
  C6. When \<open>get_config_dir\<close> gives the entry map and the requested name, \<open>latest\<close>
  for an absent or empty argument, is not in it (the directory is missing, or the map
  does not bind the name), \<open>run_config\<close> returns False and raises nothing, and the
  file system, with the build config file, is as before. A line on standard error names
  the missing directory or the missing name; for a directory whose map is empty no line
  is written.
\<close>

theorem restore_missing_name:
  assumes "get_config_dir bt True w = (Inr (cdir, cmap), w1)"
      and "case cmap of None \<Rightarrow> True
           | Some m \<Rightarrow> map_of m (name_or name_arg get_default_config_name) = None"
  shows "\<exists>w'. run_config ev bt name_arg w = (Inr (Some False), w')
     \<and> files w' = files w \<and> out w' = out w \<and> calls w' = calls w
     \<and> err w' = err w
         @ (case cmap of
              None \<Rightarrow> [''config store directory missing: '' @ cdir @ [CHR 0x0A]]
            | Some [] \<Rightarrow> []
            | Some (x # xs) \<Rightarrow>
                [''config file not found: '' @ name_or name_arg get_default_config_name
                   @ [CHR 0x0A]])"
proof (cases cmap)
  case None
  with get_config_dir_result [OF assms(1)] assms(1) show ?thesis
    by (simp add: run_config_def)
next
  case (Some m)
  with get_config_dir_result [OF assms(1)] have w1: "w1 = w" by simp
  show ?thesis
  proof (cases m)
    case Nil
    with Some assms(1) w1 show ?thesis by (simp add: run_config_def)
  next
    case (Cons x xs)
    with Some assms w1 show ?thesis by (simp add: run_config_def)
  qed
qed

theorem restore_missing_name_witness:
  "get_config_dir ex_bt True ex_world
     = (Inr (''/store/buildroot'',
          Some [(''config_2024-01-01'', mk_entry ''/store/buildroot'' ''config_2024-01-01''),
                (''latest'', mk_entry ''/store/buildroot'' ''latest'')]), ex_world)
   \<and> name_or (Some ''nope'') get_default_config_name = ''nope''
   \<and> run_config ex_env ex_bt (Some ''nope'') ex_world
       = (Inr (Some False), ex_world\<lparr>err := [''config file not found: nope\<newline>'']\<rparr>)"
proof -
  let ?m = "[(''config_2024-01-01'', mk_entry ''/store/buildroot'' ''config_2024-01-01''),
                (''latest'', mk_entry ''/store/buildroot'' ''latest'')]"
  have g: "get_config_dir ex_bt True ex_world = (Inr (''/store/buildroot'', Some ?m), ex_world)"
    by code_simp
  have n: "name_or (Some ''nope'') get_default_config_name = ''nope''"
    by (simp add: name_or_def)
  have a: "case Some ?m of None \<Rightarrow> True
           | Some m \<Rightarrow> map_of m (name_or (Some ''nope'') get_default_config_name) = None"
    by (simp add: n)
  from restore_missing_name [OF g a, of ex_env] obtain w' where
    r: "run_config ex_env ex_bt (Some ''nope'') ex_world = (Inr (Some False), w')"
    and f: "files w' = files ex_world" "out w' = out ex_world" "calls w' = calls ex_world"
    and e: "err w' = err ex_world @ [''config file not found: nope\<newline>'']"
    by (auto simp: n)
  have "w' = ex_world\<lparr>err := [''config file not found: nope\<newline>'']\<rparr>"
    using f e by (simp add: ex_world_def)
  with r g n show ?thesis by simp
qed

text \<open>
  C10. When the store directory exists and the scanner map of it is empty, \<open>run_list\<close>
  and \<open>run_config\<close> return False and leave the world as it is: nothing is printed and
  no file is touched. A world whose store directory is missing gives the same return
  values, prints nothing on standard output and keeps its files.
\<close>

theorem empty_store_fails:
  assumes "list_config_dir (files w) (get_config_dir_path bt) = Inr []"
  shows "run_list bt long_format w = (Inr (Some False), w)
     \<and> run_config ev bt name_arg w = (Inr (Some False), w)
     \<and> (\<forall>w'. list_config_dir (files w') (get_config_dir_path bt) = Inl FileNotFoundError
           \<longrightarrow> fst (run_list bt long_format w') = fst (run_list bt long_format w)
             \<and> out (snd (run_list bt long_format w')) = out w'
             \<and> fst (run_config ev bt name_arg w') = fst (run_config ev bt name_arg w)
             \<and> files (snd (run_config ev bt name_arg w')) = files w')"
  using assms
  by (simp add: run_list_def run_config_def get_config_dir_Some get_config_dir_missing)

theorem empty_store_fails_witness:
  "list_config_dir (files ex_world_empty) (get_config_dir_path ex_bt) = Inr []
   \<and> run_list ex_bt True ex_world_empty = (Inr (Some False), ex_world_empty)
   \<and> run_config ex_env ex_bt None ex_world_empty = (Inr (Some False), ex_world_empty)
   \<and> list_config_dir (files ex_world_missing) (get_config_dir_path ex_bt) = Inl FileNotFoundError
   \<and> fst (run_list ex_bt True ex_world_missing) = Inr (Some False)
   \<and> fst (run_config ex_env ex_bt None ex_world_missing) = Inr (Some False)"
proof -
  have a: "list_config_dir (files ex_world_empty) (get_config_dir_path ex_bt) = Inr []"
    by code_simp
  have b: "list_config_dir (files ex_world_missing) (get_config_dir_path ex_bt)
      = Inl FileNotFoundError"
    by code_simp
  from empty_store_fails [OF a, of True ex_env None] a b show ?thesis by simp
qed

section \<open>Copying a file: properties\<close>

lemma mkstemp_Inl: "mkstemp ev d w = (Inl e, w') \<Longrightarrow> w' = w"
  by (auto simp: mkstemp_def Let_def split: if_splits sum.splits node.splits)

lemma mkstemp_Inr:
  assumes "mkstemp ev d w = (Inr p, w')"
  shows "p = path_join d (tmp_name ev) \<and> lookup (files w) p = None
     \<and> os_stat (files w) d = Inr Dir \<and> fault ev \<noteq> Some AtMkstemp
     \<and> w' = w\<lparr>files := AList.update p (RegFile []) (files w), calls := calls w @ [Mkstemp p]\<rparr>"
  using assms
  by (auto simp: mkstemp_def Let_def split: if_splits sum.splits node.splits)

lemma mkstemp_ok:
  assumes "fault ev \<noteq> Some AtMkstemp" "os_stat (files w) d = Inr Dir"
    "lookup (files w) (path_join d (tmp_name ev)) = None"
  shows "mkstemp ev d w
     = (Inr (path_join d (tmp_name ev)),
        w\<lparr>files := AList.update (path_join d (tmp_name ev)) (RegFile [])
                    (files w),
          calls := calls w @ [Mkstemp (path_join d (tmp_name ev))]\<rparr>)"
  using assms by (simp add: mkstemp_def Let_def)

lemma copy_loop_spec:
  assumes "lookup (files w) tmp = Some (RegFile c0)"
  shows "\<exists>bs r w'. copy_loop ev tmp k block rest w = (r, w')
     \<and> map_of (files w') = (map_of (files w))(tmp \<mapsto> RegFile (c0 @ concat bs))
     \<and> calls w' = calls w @ map (Write tmp) bs
     \<and> out w' = out w \<and> err w' = err w
     \<and> (r = None \<longrightarrow> (block = [] \<longrightarrow> rest = []) \<longrightarrow> concat bs = block @ rest)
     \<and> ((\<forall>j. fault ev \<noteq> Some (AtWrite j) \<and> fault ev \<noteq> Some (AtRead j)) \<longrightarrow> r = None)"
  using assms
proof (induction ev tmp k block rest w arbitrary: c0 rule: copy_loop.induct)
  case (1 ev tmp k block rest w)
  have m0: "map_of (files w) = (map_of (files w))(tmp \<mapsto> RegFile c0)"
    using "1.prems" by (auto simp: lookup_def)
  show ?case
  proof (cases "block = []")
    case True
    have "copy_loop ev tmp k block rest w = (None, w)"
      by (subst copy_loop.simps) (simp add: True)
    with m0 True show ?thesis
      by (intro exI [of _ "[]"] exI [of _ None] exI [of _ w]) simp
  next
    case False
    note nonempty = False
    show ?thesis
    proof (cases "fault ev = Some (AtWrite k)")
      case True
      have "copy_loop ev tmp k block rest w = (Some OSError, w)"
        by (subst copy_loop.simps) (simp add: True nonempty)
      with m0 True show ?thesis
        by (intro exI [of _ "[]"] exI [of _ "Some OSError"] exI [of _ w]) simp
    next
      case False
      note nowrite = False
      define w1 where "w1 = os_write tmp block w"
      have w1: "lookup (files w1) tmp = Some (RegFile (c0 @ block))"
        "map_of (files w1) = (map_of (files w))(tmp \<mapsto> RegFile (c0 @ block))"
        "calls w1 = calls w @ [Write tmp block]" "out w1 = out w" "err w1 = err w"
        using "1.prems" by (simp_all add: w1_def os_write_def lookup_def update_conv')
      show ?thesis
      proof (cases "fault ev = Some (AtRead (Suc k))")
        case True
        have "copy_loop ev tmp k block rest w = (Some OSError, w1)"
          by (subst copy_loop.simps) (simp add: True nonempty nowrite w1_def)
        with w1 True show ?thesis
          by (intro exI [of _ "[block]"] exI [of _ "Some OSError"] exI [of _ w1]) simp
      next
        case False
        have step: "copy_loop ev tmp k block rest w
            = copy_loop ev tmp (Suc k) (take bsize rest) (drop bsize rest) w1"
          by (subst copy_loop.simps) (simp add: False nonempty nowrite w1_def Let_def)
        from "1.IH" [OF nonempty nowrite w1_def False w1(1)]
        obtain bs r w' where ih:
          "copy_loop ev tmp (Suc k) (take bsize rest) (drop bsize rest) w1 = (r, w')"
          "map_of (files w') = (map_of (files w1))(tmp \<mapsto> RegFile ((c0 @ block) @ concat bs))"
          "calls w' = calls w1 @ map (Write tmp) bs"
          "out w' = out w1" "err w' = err w1"
          "r = None \<longrightarrow> (take bsize rest = [] \<longrightarrow> drop bsize rest = [])
              \<longrightarrow> concat bs = take bsize rest @ drop bsize rest"
          "(\<forall>j. fault ev \<noteq> Some (AtWrite j) \<and> fault ev \<noteq> Some (AtRead j)) \<longrightarrow> r = None"
          by (elim exE conjE)
        have tk: "take bsize rest = [] \<longrightarrow> drop bsize rest = []"
          using bsize_pos by (cases rest) auto
        show ?thesis
          by (rule exI [of _ "block # bs"], rule exI [of _ r], rule exI [of _ w'])
             (use step ih w1 tk in simp)
      qed
    qed
  qed
qed


lemma stat_follow_fresh:
  "stat_follow k fsys p = Inr n \<Longrightarrow> lookup fsys t = None \<Longrightarrow>
   stat_follow k (AList.update t x fsys) p = Inr n"
proof (induction k arbitrary: p)
  case 0
  then have "p \<noteq> t" by (auto split: option.splits)
  then have "lookup (AList.update t x fsys) p = lookup fsys p"
    by (simp add: lookup_def update_conv')
  with 0 show ?case by simp
next
  case (Suc k)
  then have "p \<noteq> t" by (auto split: option.splits)
  then have l: "lookup (AList.update t x fsys) p = lookup fsys p"
    by (simp add: lookup_def update_conv')
  show ?case
  proof (cases "lookup fsys p")
    case None
    with Suc.prems show ?thesis by simp
  next
    case (Some nd)
    with Suc l show ?thesis by (cases nd) auto
  qed
qed

lemma open_read_fresh:
  "open_read fsys src = Inr c \<Longrightarrow> lookup fsys t = None \<Longrightarrow>
   open_read (AList.update t x fsys) src = Inr c"
proof -
  assume a: "open_read fsys src = Inr c" and f: "lookup fsys t = None"
  from a have "stat_follow MAXSYMLINKS fsys src = Inr (RegFile c)"
    by (auto simp: open_read_def os_stat_def split: sum.splits node.splits)
  from stat_follow_fresh [OF this f]
  show "open_read (AList.update t x fsys) src = Inr c"
    by (simp add: open_read_def os_stat_def)
qed


text \<open>
  C7. \<open>copy_file\<close> creates the temporary file in the directory of the destination and
  removes it in its \<open>finally\<close> clause, but not on every failure path. When
  \<open>os.close\<close> in the \<open>try\<close> block fails, after \<open>mkstemp\<close>, the \<open>open\<close> of the source
  and all writes went well, \<open>tmp_fd\<close> is still set; the \<open>finally\<close> clause closes the
  released descriptor again, this raises, and \<open>os.unlink\<close> is not reached. \<open>copy_file\<close>
  then ends with the exception and the temporary file, holding the whole content of the
  source, is left in the directory of the destination; nothing else has changed.
\<close>

theorem copy_file_failed_close_keeps_tmp:
  fixes ev dst
  defines "tmp \<equiv> path_join (dirname dst) (tmp_name ev)"
  assumes flt: "fault ev = Some AtClose"
      and dir: "os_stat (files w) (dirname dst) = Inr Dir"
      and fresh: "lookup (files w) tmp = None"
      and src: "open_read (files w) src = Inr c"
  shows "\<exists>bs w'. copy_file ev src dst w = (Some OSError, w')
     \<and> map_of (files w') = (map_of (files w))(tmp \<mapsto> RegFile c)
     \<and> concat bs = c
     \<and> calls w' = calls w @ [Mkstemp tmp] @ map (Write tmp) bs
     \<and> out w' = out w @ [src @ '' -> '' @ dst @ [CHR 0x0A]] \<and> err w' = err w"
proof -
  define w0 where "w0 = w\<lparr>out := out w @ [src @ '' -> '' @ dst @ [CHR 0x0A]]\<rparr>"
  define w1 where "w1 = w0\<lparr>files := AList.update tmp (RegFile []) (files w0),
                             calls := calls w0 @ [Mkstemp tmp]\<rparr>"
  have mk: "mkstemp ev (dirname dst) w0 = (Inr tmp, w1)"
    unfolding tmp_def w1_def
    by (rule mkstemp_ok) (use flt dir fresh in \<open>simp_all add: w0_def tmp_def\<close>)
  have w1f: "map_of (files w1) = (map_of (files w))(tmp \<mapsto> RegFile [])"
    "calls w1 = calls w @ [Mkstemp tmp]"
    "out w1 = out w @ [src @ '' -> '' @ dst @ [CHR 0x0A]]" "err w1 = err w"
    by (simp_all add: w1_def w0_def update_conv')
  have tmp0: "lookup (files w1) tmp = Some (RegFile [])"
    by (simp add: lookup_def w1f)
  have rd: "open_read (files w1) src = Inr c"
    using src fresh by (simp add: w1_def w0_def open_read_fresh)
  from copy_loop_spec [OF tmp0, of ev 0 "take bsize c" "drop bsize c"]
  obtain bs r w2 where lp:
    "copy_loop ev tmp 0 (take bsize c) (drop bsize c) w1 = (r, w2)"
    "map_of (files w2) = (map_of (files w1))(tmp \<mapsto> RegFile ([] @ concat bs))"
    "calls w2 = calls w1 @ map (Write tmp) bs"
    "out w2 = out w1" "err w2 = err w1"
    "r = None \<longrightarrow> (take bsize c = [] \<longrightarrow> drop bsize c = [])
          \<longrightarrow> concat bs = take bsize c @ drop bsize c"
    "(\<forall>j. fault ev \<noteq> Some (AtWrite j) \<and> fault ev \<noteq> Some (AtRead j)) \<longrightarrow> r = None"
    by (elim exE conjE)
  have rn: "r = None" using lp(7) flt by simp
  have "take bsize c = [] \<longrightarrow> drop bsize c = []"
    using bsize_pos by (cases c) auto
  with lp(6) rn have cb: "concat bs = c" by simp
  have ct: "copy_try ev src dst tmp w1 = (Some OSError, True, True, False, w2)"
    using flt rd lp(1) rn by (simp add: copy_try_def os_close_def)
  have fin: "copy_finally ev tmp True True False w2 = (Some OSError, w2)"
    by (simp add: copy_finally_def os_close_def)
  have res: "copy_file ev src dst w = (Some OSError, w2)"
    using mk ct fin by (simp add: copy_file_def w0_def tmp_def)
  show ?thesis
    by (rule exI [of _ bs], rule exI [of _ w2])
       (use res cb lp(2-5) w1f in simp)
qed

theorem copy_file_failed_close_keeps_tmp_witness:
  "fault (ex_env\<lparr>fault := Some AtClose\<rparr>) = Some AtClose
   \<and> os_stat (files ex_world) (dirname ''/build/.config'') = Inr Dir
   \<and> path_join (dirname ''/build/.config'') (tmp_name (ex_env\<lparr>fault := Some AtClose\<rparr>))
       = ''/build/tmpk3x9q2ab.tmp''
   \<and> lookup (files ex_world) ''/build/tmpk3x9q2ab.tmp'' = None
   \<and> open_read (files ex_world) ''/store/buildroot/latest'' = Inr ''CONFIG_A=n''
   \<and> (\<exists>w'. copy_file (ex_env\<lparr>fault := Some AtClose\<rparr>) ''/store/buildroot/latest''
              ''/build/.config'' ex_world = (Some OSError, w')
         \<and> lookup (files w') ''/build/tmpk3x9q2ab.tmp'' = Some (RegFile ''CONFIG_A=n'')
         \<and> lookup (files w') ''/build/.config'' = Some (RegFile ''CONFIG_A=y''))"
proof -
  let ?ev = "ex_env\<lparr>fault := Some AtClose\<rparr>"
  let ?src = "''/store/buildroot/latest''" and ?dst = "''/build/.config''"
  have f: "fault ?ev = Some AtClose" by simp
  have d: "os_stat (files ex_world) (dirname ?dst) = Inr Dir" by code_simp
  have t: "path_join (dirname ?dst) (tmp_name ?ev) = ''/build/tmpk3x9q2ab.tmp''" by code_simp
  have l: "lookup (files ex_world) ''/build/tmpk3x9q2ab.tmp'' = None" by code_simp
  have o: "open_read (files ex_world) ?src = Inr ''CONFIG_A=n''" by code_simp
  have b: "lookup (files ex_world) ?dst = Some (RegFile ''CONFIG_A=y'')" by code_simp
  from copy_file_failed_close_keeps_tmp [of ?ev ex_world ?dst ?src "''CONFIG_A=n''", OF f d _ o]
    l t
  obtain w' where r: "copy_file ?ev ?src ?dst ex_world = (Some OSError, w')"
    and m: "map_of (files w')
      = (map_of (files ex_world))(''/build/tmpk3x9q2ab.tmp'' \<mapsto> RegFile ''CONFIG_A=n'')"
    by auto
  have "lookup (files w') ''/build/tmpk3x9q2ab.tmp'' = Some (RegFile ''CONFIG_A=n'')"
    by (simp add: lookup_def m)
  moreover have "lookup (files w') ?dst = Some (RegFile ''CONFIG_A=y'')"
    using b by (simp add: lookup_def m)
  ultimately show ?thesis using f d t l o r by blast
qed

section \<open>Backing up on a name collision: properties\<close>

lemma copy_file_ok:
  fixes ev dst
  defines "tmp \<equiv> path_join (dirname dst) (tmp_name ev)"
  assumes flt: "fault ev = None"
      and dir: "os_stat (files w) (dirname dst) = Inr Dir"
      and fresh: "lookup (files w) tmp = None"
      and src: "open_read (files w) src = Inr c"
      and nodir: "lookup (files w) dst \<noteq> Some Dir"
  shows "\<exists>w'. copy_file ev src dst w = (None, w')
     \<and> map_of (files w') = (map_of (files w))(dst \<mapsto> RegFile c)
     \<and> out w' = out w @ [src @ '' -> '' @ dst @ [CHR 0x0A]] \<and> err w' = err w"
proof -
  define w0 where "w0 = w\<lparr>out := out w @ [src @ '' -> '' @ dst @ [CHR 0x0A]]\<rparr>"
  define w1 where "w1 = w0\<lparr>files := AList.update tmp (RegFile []) (files w0),
                             calls := calls w0 @ [Mkstemp tmp]\<rparr>"
  have mk: "mkstemp ev (dirname dst) w0 = (Inr tmp, w1)"
    unfolding tmp_def w1_def
    by (rule mkstemp_ok) (use flt dir fresh in \<open>simp_all add: w0_def tmp_def\<close>)
  have w1f: "map_of (files w1) = (map_of (files w))(tmp \<mapsto> RegFile [])"
    "out w1 = out w @ [src @ '' -> '' @ dst @ [CHR 0x0A]]" "err w1 = err w"
    by (simp_all add: w1_def w0_def update_conv')
  have tmp0: "lookup (files w1) tmp = Some (RegFile [])"
    by (simp add: lookup_def w1f)
  have rd: "open_read (files w1) src = Inr c"
    using src fresh by (simp add: w1_def w0_def open_read_fresh)
  from copy_loop_spec [OF tmp0, of ev 0 "take bsize c" "drop bsize c"]
  obtain bs r w2 where lp:
    "copy_loop ev tmp 0 (take bsize c) (drop bsize c) w1 = (r, w2)"
    "map_of (files w2) = (map_of (files w1))(tmp \<mapsto> RegFile ([] @ concat bs))"
    "calls w2 = calls w1 @ map (Write tmp) bs"
    "out w2 = out w1" "err w2 = err w1"
    "r = None \<longrightarrow> (take bsize c = [] \<longrightarrow> drop bsize c = [])
          \<longrightarrow> concat bs = take bsize c @ drop bsize c"
    "(\<forall>j. fault ev \<noteq> Some (AtWrite j) \<and> fault ev \<noteq> Some (AtRead j)) \<longrightarrow> r = None"
    by (elim exE conjE)
  have rn: "r = None" using lp(7) flt by simp
  have "take bsize c = [] \<longrightarrow> drop bsize c = []"
    using bsize_pos by (cases c) auto
  with lp(6) rn have cb: "concat bs = c" by simp
  define w3 where "w3 = w2\<lparr>calls := calls w2 @ [Close tmp]\<rparr>"
  have cl: "os_close ev AtClose True tmp w2 = (None, w3)"
    using flt by (simp add: os_close_def w3_def)
  have m3: "map_of (files w3) = (map_of (files w))(tmp \<mapsto> RegFile c)"
    "out w3 = out w1" "err w3 = err w1"
    by (simp_all add: w3_def lp w1f cb)
  have d3: "lookup (files w3) dst \<noteq> Some Dir"
    using nodir by (auto simp: lookup_def m3)
  define w4 where "w4 = w3\<lparr>files := AList.update dst (RegFile c) (AList.delete tmp (files w3)),
                             calls := calls w3 @ [Replace tmp dst]\<rparr>"
  have rp: "os_replace ev tmp dst w3 = (None, w4)"
    using flt d3 by (simp add: os_replace_def lookup_def m3 w4_def)
  have ct: "copy_try ev src dst tmp w1 = (None, False, False, False, w4)"
    using flt rd lp(1) rn cl rp by (simp add: copy_try_def)
  have fin: "copy_finally ev tmp False False False w4 = (None, w4)"
    by (simp add: copy_finally_def)
  have res: "copy_file ev src dst w = (None, w4)"
    using mk ct fin by (simp add: copy_file_def w0_def tmp_def)
  have "(map_of (files w))(tmp := None) = map_of (files w)"
    using fresh by (auto simp: lookup_def)
  then have m4: "map_of (files w4) = (map_of (files w))(dst \<mapsto> RegFile c)"
    by (simp add: w4_def update_conv' delete_conv' m3)
  show ?thesis
    by (rule exI [of _ w4]) (use res m4 m3 w1f in \<open>simp add: w4_def\<close>)
qed

declare str_nat.simps [simp del]

lemma digit_char_inj:
  "a < 10 \<Longrightarrow> b < 10 \<Longrightarrow> char_of (48 + a :: nat) = char_of (48 + b) \<Longrightarrow> a = b"
proof -
  assume a: "a < 10" "b < 10" and e: "char_of (48 + a :: nat) = char_of (48 + b)"
  from e have "(of_char (char_of (48 + a)) :: nat) = of_char (char_of (48 + b))" by simp
  then have "(48 + a) mod 256 = (48 + b) mod 256" by (simp only: of_char_of)
  with a show "a = b" by simp
qed

lemma digit_char_value:
  "a < 10 \<Longrightarrow> (of_char (char_of (48 + a :: nat)) :: nat) = 48 + a"
  by (simp only: of_char_of) simp

lemma digit_char_not_slash: "a < 10 \<Longrightarrow> char_of (48 + a :: nat) \<noteq> slash"
proof
  assume a: "a < 10" and e: "char_of (48 + a :: nat) = slash"
  from e have "(of_char (char_of (48 + a)) :: nat) = of_char slash" by simp
  with digit_char_value [OF a] show False by (simp add: slash_def)
qed

lemma digit_char_not_t: "a < 10 \<Longrightarrow> char_of (48 + a :: nat) \<noteq> CHR ''t''"
proof
  assume a: "a < 10" and e: "char_of (48 + a :: nat) = CHR ''t''"
  from e have "(of_char (char_of (48 + a)) :: nat) = of_char CHR ''t''" by simp
  with digit_char_value [OF a] a show False by simp
qed

lemma str_nat_nonempty: "str_nat n \<noteq> []"
  by (subst str_nat.simps) simp

lemma str_nat_last: "last (str_nat n) = char_of (48 + n mod 10)"
  by (subst str_nat.simps) simp

lemma str_nat_no_slash: "slash \<notin> set (str_nat n)"
proof (induction n rule: str_nat.induct)
  case (1 n)
  show ?case
  proof (cases "n < 10")
    case True
    then show ?thesis
      using digit_char_not_slash [of n] by (subst str_nat.simps) auto
  next
    case False
    have "n mod 10 < 10" by simp
    with 1 False show ?thesis
      using digit_char_not_slash [of "n mod 10"] by (subst str_nat.simps) auto
  qed
qed

lemma str_nat_length: "\<not> n < 10 \<Longrightarrow> 2 \<le> length (str_nat n)"
proof -
  assume "\<not> n < 10"
  then have "str_nat n = str_nat (n div 10) @ [char_of (48 + n mod 10)]"
    by (subst str_nat.simps) simp
  then show ?thesis
    using str_nat_nonempty [of "n div 10"] by (cases "str_nat (n div 10)") auto
qed

lemma str_nat_inj: "str_nat m = str_nat n \<Longrightarrow> m = n"
proof (induction m arbitrary: n rule: str_nat.induct)
  case (1 m)
  show ?case
  proof (cases "m < 10")
    case True
    then have sm: "str_nat m = [char_of (48 + m)]" by (subst str_nat.simps) simp
    show ?thesis
    proof (cases "n < 10")
      case n: True
      then have "str_nat n = [char_of (48 + n)]" by (subst str_nat.simps) simp
      with sm "1.prems" True n show ?thesis by (auto dest: digit_char_inj)
    next
      case False
      from str_nat_length [OF False] sm "1.prems" show ?thesis by simp
    qed
  next
    case False
    then have sm: "str_nat m = str_nat (m div 10) @ [char_of (48 + m mod 10)]"
      by (subst str_nat.simps) simp
    show ?thesis
    proof (cases "n < 10")
      case True
      then have "str_nat n = [char_of (48 + n)]" by (subst str_nat.simps) simp
      with str_nat_length [OF False] "1.prems" show ?thesis by simp
    next
      case n: False
      then have sn: "str_nat n = str_nat (n div 10) @ [char_of (48 + n mod 10)]"
        by (subst str_nat.simps) simp
      from sm sn "1.prems" have e: "str_nat (m div 10) = str_nat (n div 10)"
        "char_of (48 + m mod 10 :: nat) = char_of (48 + n mod 10)" by simp_all
      from "1.IH" [OF False e(1)] have d: "m div 10 = n div 10" .
      from e(2) have "m mod 10 = n mod 10" by (auto dest: digit_char_inj)
      with d show ?thesis by (metis div_mult_mod_eq)
    qed
  qed
qed

lemma fgen_inj: "fgen base j = fgen base k \<Longrightarrow> j = k"
proof -
  assume a: "fgen base j = fgen base k"
  have pos: "0 < i \<Longrightarrow> length (fgen base i) > length base" for i
    by (simp add: fgen_def)
  show ?thesis
  proof (cases "j = 0 \<or> k = 0")
    case True
    with a pos [of j] pos [of k] show ?thesis
      by (cases "j = 0"; cases "k = 0") (auto simp: fgen_def)
  next
    case False
    with a show ?thesis by (auto simp: fgen_def dest: str_nat_inj)
  qed
qed

lemma fgen_unused:
  "\<exists>k. map_of cmap (fgen base k) = None \<and> (\<forall>j<k. map_of cmap (fgen base j) \<noteq> None)"
proof -
  have "\<exists>k. map_of cmap (fgen base k) = None"
  proof (rule ccontr)
    assume "\<not> (\<exists>k. map_of cmap (fgen base k) = None)"
    then have "range (fgen base) \<subseteq> dom (map_of cmap)" by auto
    moreover have "finite (dom (map_of cmap))" by (rule finite_dom_map_of)
    ultimately have "finite (range (fgen base))" by (rule finite_subset)
    moreover have "inj (fgen base)" by (auto intro: injI dest: fgen_inj)
    ultimately show False using finite_imageD by blast
  qed
  then obtain k0 where k0: "map_of cmap (fgen base k0) = None" ..
  define k where "k = (LEAST k. map_of cmap (fgen base k) = None)"
  have "map_of cmap (fgen base k) = None"
    unfolding k_def using k0 by (rule LeastI)
  moreover have "\<forall>j<k. map_of cmap (fgen base j) \<noteq> None"
    unfolding k_def using not_less_Least by blast
  ultimately show ?thesis by blast
qed

lemma endswith_slash: "endswith d [slash] \<longleftrightarrow> d \<noteq> [] \<and> last d = slash"
  by (cases d rule: rev_cases) (auto simp: endswith_def)

lemma takeWhile_upto: "c \<notin> set xs \<Longrightarrow> takeWhile (\<lambda>x. x \<noteq> c) (xs @ c # ys) = xs"
  by (induction xs) auto

lemma dropWhile_upto: "c \<notin> set xs \<Longrightarrow> dropWhile (\<lambda>x. x \<noteq> c) (xs @ c # ys) = c # ys"
  by (induction xs) auto

lemma path_join_plain:
  "cdir = [slash] \<or> (cdir \<noteq> [] \<and> last cdir \<noteq> slash) \<Longrightarrow> n \<noteq> [] \<Longrightarrow> slash \<notin> set n \<Longrightarrow>
   path_join cdir n = (if cdir = [slash] then cdir else cdir @ [slash]) @ n"
  by (cases n) (auto simp: path_join_def startswith_def endswith_slash)

lemma path_join_split:
  assumes "cdir = [slash] \<or> (cdir \<noteq> [] \<and> last cdir \<noteq> slash)" "n \<noteq> []" "slash \<notin> set n"
  shows "path_join cdir n = (if cdir = [slash] then [] else cdir) @ slash # n"
  using path_join_plain [OF assms] by simp

lemma basename_join:
  assumes "cdir = [slash] \<or> (cdir \<noteq> [] \<and> last cdir \<noteq> slash)" "n \<noteq> []" "slash \<notin> set n"
  shows "basename (path_join cdir n) = n"
proof -
  define q where "q = (if cdir = [slash] then [] else cdir)"
  have p: "path_join cdir n = q @ slash # n"
    unfolding q_def using assms by (rule path_join_split)
  have "takeWhile (\<lambda>x. x \<noteq> slash) (rev n @ slash # rev q) = rev n"
    using assms(3) by (simp add: takeWhile_upto)
  then show ?thesis unfolding p basename_def by simp
qed

lemma dirname_join:
  assumes "cdir = [slash] \<or> (cdir \<noteq> [] \<and> last cdir \<noteq> slash)" "n \<noteq> []" "slash \<notin> set n"
  shows "dirname (path_join cdir n) = cdir"
proof -
  define q where "q = (if cdir = [slash] then [] else cdir)"
  have p: "path_join cdir n = q @ slash # n"
    unfolding q_def using assms by (rule path_join_split)
  have "dropWhile (\<lambda>x. x \<noteq> slash) (rev n @ slash # rev q) = slash # rev q"
    using assms(3) by (simp add: dropWhile_upto)
  then have h: "rev (dropWhile (\<lambda>x. x \<noteq> slash) (rev (path_join cdir n))) = q @ [slash]"
    unfolding p by simp
  show ?thesis
  proof (cases "cdir = [slash]")
    case True
    then have "q = []" by (simp add: q_def)
    with h True show ?thesis by (simp add: dirname_def Let_def)
  next
    case False
    with assms(1) have c: "cdir \<noteq> []" "last cdir \<noteq> slash" by auto
    from False have q: "q = cdir" by (simp add: q_def)
    have "last cdir \<in> set (cdir @ [slash])" using c(1) by simp
    then have ns: "cdir @ [slash] \<noteq> replicate (length (cdir @ [slash])) slash"
      using c(2) by (metis in_set_replicate)
    have "dropWhile (\<lambda>x. x = slash) (rev cdir) = rev cdir"
      using c by (cases cdir rule: rev_cases) auto
    then have "rstrip_char slash (cdir @ [slash]) = cdir"
      by (simp add: rstrip_char_def)
    with h q ns show ?thesis by (simp add: dirname_def Let_def)
  qed
qed

lemma path_join_inj:
  "a \<noteq> [] \<Longrightarrow> slash \<notin> set a \<Longrightarrow> b \<noteq> [] \<Longrightarrow> slash \<notin> set b \<Longrightarrow>
   path_join d a = path_join d b \<Longrightarrow> a = b"
  using path_join_child [of a d] path_join_child [of b d] by (metis same_append_eq)

lemma unlink_if_exists:
  assumes "lookup (files w) p \<noteq> Some Dir"
  shows "\<exists>w2. (case os_unlink p w of
                 (Some FileNotFoundError, w') \<Rightarrow> (None, w')
               | other \<Rightarrow> other) = (None, w2)
     \<and> map_of (files w2) = (map_of (files w))(p := None)
     \<and> out w2 = out w \<and> err w2 = err w"
proof (cases "lookup (files w) p")
  case None
  then have m: "(map_of (files w))(p := None) = map_of (files w)"
    by (auto simp: lookup_def)
  from None have "os_unlink p w = (Some FileNotFoundError, w)" by (simp add: os_unlink_def)
  with m show ?thesis by simp
next
  case (Some nd)
  with assms have "os_unlink p w
      = (None, w\<lparr>files := AList.delete p (files w), calls := calls w @ [Unlink p]\<rparr>)"
    by (cases nd) (simp_all add: os_unlink_def)
  then show ?thesis by (simp add: delete_conv')
qed

lemma backup_copy_ok:
  fixes ev cdir nm
  defines "cfile \<equiv> path_join cdir nm" and "cfile_link \<equiv> path_join cdir get_default_config_name"
  assumes flt: "fault ev = None"
      and dir: "os_stat (files w) cdir = Inr Dir"
      and norm: "cdir = [slash] \<or> (cdir \<noteq> [] \<and> last cdir \<noteq> slash)"
      and nm: "nm \<noteq> []" "slash \<notin> set nm" "nm \<noteq> get_default_config_name"
      and fresh: "lookup (files w) (path_join cdir (tmp_name ev)) = None"
      and src: "open_read (files w) bcfile = Inr c"
      and nodir: "lookup (files w) cfile \<noteq> Some Dir"
      and link: "lookup (files w) cfile_link \<noteq> Some Dir"
  shows "\<exists>w'. backup_copy ev bcfile cdir nm True w = (git_outcome ev cdir, w')
     \<and> map_of (files w') = (map_of (files w))(cfile \<mapsto> RegFile c, cfile_link \<mapsto> SymLink nm)
     \<and> cfile \<noteq> cfile_link
     \<and> out w' = out w @ [bcfile @ '' -> '' @ cfile @ [CHR 0x0A]] \<and> err w' = err w"
proof -
  have dn: "dirname cfile = cdir" and bn: "basename cfile = nm"
    unfolding cfile_def using norm nm(1,2) by (rule dirname_join, rule basename_join)
  have ne: "cfile \<noteq> cfile_link"
  proof
    assume "cfile = cfile_link"
    then have "nm = get_default_config_name"
      unfolding cfile_def cfile_link_def
      by (rule path_join_inj [OF nm(1,2), rotated 2])
         (simp_all add: get_default_config_name_def slash_def)
    with nm(3) show False by simp
  qed
  from copy_file_ok [of ev w cfile bcfile c] flt dir fresh src nodir dn
  obtain w1 where cp: "copy_file ev bcfile cfile w = (None, w1)"
    and m1: "map_of (files w1) = (map_of (files w))(cfile \<mapsto> RegFile c)"
    and o1: "out w1 = out w @ [bcfile @ '' -> '' @ cfile @ [CHR 0x0A]]" "err w1 = err w"
    by auto
  have "lookup (files w1) cfile_link \<noteq> Some Dir"
    using link ne by (simp add: lookup_def m1)
  from unlink_if_exists [OF this]
  obtain w2 where ul: "(case os_unlink cfile_link w1 of
                 (Some FileNotFoundError, w') \<Rightarrow> (None, w')
               | other \<Rightarrow> other) = (None, w2)"
    and m2: "map_of (files w2) = (map_of (files w1))(cfile_link := None)"
    and o2: "out w2 = out w1" "err w2 = err w1"
    by blast
  define w3 where "w3 = w2\<lparr>files := AList.update cfile_link (SymLink nm) (files w2),
                             calls := calls w2 @ [Symlink nm cfile_link]\<rparr>"
  have sl: "os_symlink (basename cfile) cfile_link w2 = (None, w3)"
    by (simp add: os_symlink_def lookup_def m2 bn w3_def)
  have m3: "map_of (files w3) = (map_of (files w))(cfile \<mapsto> RegFile c, cfile_link \<mapsto> SymLink nm)"
    by (simp add: w3_def update_conv' m2 m1)
  have o3: "out w3 = out w1" "err w3 = err w1"
    by (simp_all add: w3_def o2)
  have "\<exists>w'. (case check_is_git_dir ev cdir w3 of
                  (Inl x, w4) \<Rightarrow> (Inl x, w4)
                | (Inr False, w4) \<Rightarrow> (Inr None, w4)
                | (Inr True, w4) \<Rightarrow>
                    (case run_git_commit_file ev cdir [cfile, cfile_link] ''update config'' w4 of
                       (Some x, w5) \<Rightarrow> (Inl x, w5)
                     | (None, w5) \<Rightarrow> (Inr None, w5)))
              = (git_outcome ev cdir, w')
          \<and> files w' = files w3 \<and> out w' = out w3 \<and> err w' = err w3"
    by (cases "git_rev_parse ev cdir")
       (auto simp: check_is_git_dir_def run_git_commit_file_def git_outcome_def Let_def
          split: bool.splits)
  then obtain w' where g: "(case check_is_git_dir ev cdir w3 of
                  (Inl x, w4) \<Rightarrow> (Inl x, w4)
                | (Inr False, w4) \<Rightarrow> (Inr None, w4)
                | (Inr True, w4) \<Rightarrow>
                    (case run_git_commit_file ev cdir [cfile, cfile_link] ''update config'' w4 of
                       (Some x, w5) \<Rightarrow> (Inl x, w5)
                     | (None, w5) \<Rightarrow> (Inr None, w5)))
              = (git_outcome ev cdir, w')"
    and f': "files w' = files w3" "out w' = out w3" "err w' = err w3" by blast
  have "backup_copy ev bcfile cdir nm True w = (git_outcome ev cdir, w')"
    using cp ul sl g
    by (simp add: backup_copy_def Let_def cfile_def [symmetric] cfile_link_def [symmetric])
  with m3 o3 o1 f' ne show ?thesis by simp
qed

lemma list_config_dir_isdir: "list_config_dir fsys d = Inr m \<Longrightarrow> os_stat fsys d = Inr Dir"
  by (auto simp: list_config_dir_def os_scandir_def split: sum.splits node.splits)

lemma cmap_name_plain:
  "list_config_dir fsys d = Inr cmap \<Longrightarrow> map_of cmap n \<noteq> None \<Longrightarrow> n \<noteq> [] \<and> slash \<notin> set n"
  using list_config_dir_map [of fsys d cmap n] by (auto split: if_splits)

lemma fgen_revision_plain:
  assumes "nm \<noteq> []" "slash \<notin> set nm" "0 < k"
  shows "fgen nm k \<noteq> [] \<and> slash \<notin> set (fgen nm k) \<and> fgen nm k \<noteq> get_default_config_name"
proof -
  have f: "fgen nm k = nm @ ''-r'' @ str_nat k" using assms(3) by (simp add: fgen_def)
  have "last (fgen nm k) = char_of (48 + k mod 10)"
    unfolding f using str_nat_nonempty [of k] by (simp add: str_nat_last)
  moreover have "k mod 10 < 10" by simp
  ultimately have "last (fgen nm k) \<noteq> CHR ''t''"
    using digit_char_not_t [of "k mod 10"] by simp
  then have "fgen nm k \<noteq> get_default_config_name"
    by (auto simp: get_default_config_name_def)
  moreover have "slash \<notin> set (fgen nm k)"
    unfolding f using assms(2) str_nat_no_slash [of k] by (simp add: slash_def)
  ultimately show ?thesis using assms(1) f by simp
qed

text \<open>
  C2. Let the store directory be listed with the entry map \<open>cmap\<close>, let the requested
  name be in the map, and let every candidate \<open>base\<close>, \<open>base-r1\<close>, \<open>base-r2\<close>, ...
  that is in the map have a hash other than that of the build config file. Let the
  environment inject no fault into the copy, let the path of the store directory be
  normalised (no trailing slash, or the root), the temporary name be free, and neither a
  candidate nor \<open>latest\<close> be a directory. Then \<open>run_backup\<close> returns, and there is an
  index \<open>k\<close> of a revision, the first whose candidate is not in the map, such that the
  file system afterwards differs from the one before in two paths only: the candidate of
  index \<open>k\<close> in the store directory is a regular file with the content of the build
  config file, and \<open>latest\<close> is a symbolic link to the name of that candidate. The
  result is None unless a git subprocess fails after the copy.
\<close>

theorem backup_collision_new_revision:
  fixes ev bt name_arg
  defines "nm \<equiv> name_or name_arg (get_default_backup_name ev)"
      and "cdir \<equiv> get_config_dir_path bt"
      and "bcfile \<equiv> get_build_config_file_path bt"
  assumes lc: "list_config_dir (files w) cdir = Inr cmap"
      and hb: "get_file_hash ev (files w) bcfile = Inr h"
      and coll: "map_of cmap nm \<noteq> None"
      and differ: "\<forall>j e. map_of cmap (fgen nm j) = Some e
                     \<longrightarrow> get_file_hash ev (files w) (path e) \<noteq> Inr h"
      and flt: "fault ev = None"
      and norm: "cdir = [slash] \<or> (cdir \<noteq> [] \<and> last cdir \<noteq> slash)"
      and fresh: "lookup (files w) (path_join cdir (tmp_name ev)) = None"
      and nodir: "\<forall>j. lookup (files w) (path_join cdir (fgen nm j)) \<noteq> Some Dir"
      and link: "lookup (files w) (path_join cdir get_default_config_name) \<noteq> Some Dir"
  shows "\<exists>k c w'. 0 < k \<and> map_of cmap (fgen nm k) = None
       \<and> (\<forall>j<k. map_of cmap (fgen nm j) \<noteq> None)
       \<and> open_read (files w) bcfile = Inr c
       \<and> run_backup ev bt name_arg w = Some (git_outcome ev cdir, w')
       \<and> map_of (files w')
           = (map_of (files w))(path_join cdir (fgen nm k) \<mapsto> RegFile c,
                                path_join cdir get_default_config_name \<mapsto> SymLink (fgen nm k))
       \<and> path_join cdir (fgen nm k) \<noteq> path_join cdir get_default_config_name
       \<and> out w' = out w @ [bcfile @ '' -> '' @ path_join cdir (fgen nm k) @ [CHR 0x0A]]
       \<and> err w' = err w"
proof -
  from fgen_unused [of cmap nm] obtain k where
    k: "map_of cmap (fgen nm k) = None" "\<forall>j<k. map_of cmap (fgen nm j) \<noteq> None" by blast
  have kpos: "0 < k"
  proof (rule ccontr)
    assume "\<not> 0 < k"
    with k(1) coll show False by (simp add: fgen_def)
  qed
  from hb obtain c where c: "open_read (files w) bcfile = Inr c"
    by (auto simp: get_file_hash_eq split: sum.splits)
  have before: "\<forall>j<k. \<exists>e h'. map_of cmap (fgen nm j) = Some e
                \<and> get_file_hash ev (files w) (path e) = Inr h' \<and> h' \<noteq> h"
  proof (intro allI impI)
    fix j assume "j < k"
    with k(2) obtain e where e: "map_of cmap (fgen nm j) = Some e" by auto
    from cmap_entry_hash [OF lc e] obtain h' where
      h': "get_file_hash ev (files w) (path e) = Inr h'" by blast
    with differ e have "h' \<noteq> h" by auto
    with e h' show "\<exists>e h'. map_of cmap (fgen nm j) = Some e
                \<and> get_file_hash ev (files w) (path e) = Inr h' \<and> h' \<noteq> h" by blast
  qed
  have loop: "probe_loop ev cmap h nm 0 w = Some (Inr (True, fgen nm k), w)"
    using k(1) before by (rule probe_loop_copy)
  have plain: "fgen nm k \<noteq> []" "slash \<notin> set (fgen nm k)"
    "fgen nm k \<noteq> get_default_config_name"
    using fgen_revision_plain [of nm k] cmap_name_plain [OF lc coll] kpos by simp_all
  from backup_copy_ok [of ev w cdir "fgen nm k" bcfile c,
      OF flt list_config_dir_isdir [OF lc] norm plain fresh c nodir [rule_format] link]
  obtain w' where bc: "backup_copy ev bcfile cdir (fgen nm k) True w = (git_outcome ev cdir, w')"
    and m: "map_of (files w')
           = (map_of (files w))(path_join cdir (fgen nm k) \<mapsto> RegFile c,
                                path_join cdir get_default_config_name \<mapsto> SymLink (fgen nm k))"
    and ne: "path_join cdir (fgen nm k) \<noteq> path_join cdir get_default_config_name"
    and o: "out w' = out w @ [bcfile @ '' -> '' @ path_join cdir (fgen nm k) @ [CHR 0x0A]]"
      "err w' = err w"
    by blast
  have "run_backup ev bt name_arg w = Some (git_outcome ev cdir, w')"
    using coll hb loop bc get_config_dir_Some [of w bt cmap False] lc
    by (simp add: run_backup_def Let_def nm_def [symmetric] cdir_def [symmetric]
        bcfile_def [symmetric])
  with kpos k c m ne o show ?thesis by blast
qed

theorem backup_collision_new_revision_witness:
  "list_config_dir (files ex_world) (get_config_dir_path ex_bt)
     = Inr [(''config_2024-01-01'', mk_entry ''/store/buildroot'' ''config_2024-01-01''),
            (''latest'', mk_entry ''/store/buildroot'' ''latest'')]
   \<and> name_or None (get_default_backup_name ex_env) = ''config_2024-01-01''
   \<and> get_file_hash ex_env (files ex_world) (get_build_config_file_path ex_bt)
       = Inr ''CONFIG_A=y''
   \<and> get_file_hash ex_env (files ex_world) ''/store/buildroot/config_2024-01-01''
       = Inr ''CONFIG_A=n''
   \<and> (\<exists>w'. run_backup ex_env ex_bt None ex_world = Some (Inr None, w')
         \<and> map_of (files w')
             = (map_of (files ex_world))
                 (''/store/buildroot/config_2024-01-01-r1'' \<mapsto> RegFile ''CONFIG_A=y'',
                  ''/store/buildroot/latest'' \<mapsto> SymLink ''config_2024-01-01-r1'')
         \<and> out w' = [''/build/.config -> /store/buildroot/config_2024-01-01-r1\<newline>''])"
proof -
  let ?cmap = "[(''config_2024-01-01'', mk_entry ''/store/buildroot'' ''config_2024-01-01''),
            (''latest'', mk_entry ''/store/buildroot'' ''latest'')]"
  let ?nm = "name_or None (get_default_backup_name ex_env)"
  let ?cdir = "get_config_dir_path ex_bt"
  let ?bc = "get_build_config_file_path ex_bt"
  have cd: "?cdir = ''/store/buildroot''" by code_simp
  have bcf: "?bc = ''/build/.config''" by code_simp
  have n: "?nm = ''config_2024-01-01''" by code_simp
  have lc: "list_config_dir (files ex_world) ?cdir = Inr ?cmap" by code_simp
  have "open_read (files ex_world) ?bc = Inr ''CONFIG_A=y''" by code_simp
  then have hb: "get_file_hash ex_env (files ex_world) ?bc = Inr ''CONFIG_A=y''"
    by (simp add: get_file_hash_eq ex_sha256)
  have "open_read (files ex_world) ''/store/buildroot/config_2024-01-01'' = Inr ''CONFIG_A=n''"
    by code_simp
  then have h0: "get_file_hash ex_env (files ex_world) ''/store/buildroot/config_2024-01-01''
      = Inr ''CONFIG_A=n''"
    by (simp add: get_file_hash_eq ex_sha256)
  have coll: "map_of ?cmap ?nm \<noteq> None" by (simp add: n)
  have differ: "\<forall>j e. map_of ?cmap (fgen ?nm j) = Some e
      \<longrightarrow> get_file_hash ex_env (files ex_world) (path e) \<noteq> Inr ''CONFIG_A=y''"
    using h0
    by (auto simp: n fgen_def mk_entry_def path_join_def startswith_def endswith_def slash_def
        split: if_splits)
  have flt: "fault ex_env = None" by (simp add: ex_env_def)
  have norm: "?cdir = [slash] \<or> (?cdir \<noteq> [] \<and> last ?cdir \<noteq> slash)"
    by (simp add: cd slash_def)
  have fresh: "lookup (files ex_world) (path_join ?cdir (tmp_name ex_env)) = None"
    by code_simp
  have nodir: "\<forall>j. lookup (files ex_world) (path_join ?cdir (fgen ?nm j)) \<noteq> Some Dir"
    by (simp add: cd n fgen_def path_join_def startswith_def endswith_def slash_def lookup_def
        ex_world_def ex_files_def)
  have link: "lookup (files ex_world) (path_join ?cdir get_default_config_name) \<noteq> Some Dir"
    by code_simp
  have go: "git_outcome ex_env ?cdir = Inr None"
    by (simp add: git_outcome_def ex_env_def)
  from backup_collision_new_revision [OF lc hb coll differ flt norm fresh nodir link]
  obtain k c w' where k: "0 < k" "map_of ?cmap (fgen ?nm k) = None"
    "\<forall>j<k. map_of ?cmap (fgen ?nm j) \<noteq> None"
    and c: "open_read (files ex_world) ?bc = Inr c"
    and r: "run_backup ex_env ex_bt None ex_world = Some (git_outcome ex_env ?cdir, w')"
    and m: "map_of (files w')
           = (map_of (files ex_world))(path_join ?cdir (fgen ?nm k) \<mapsto> RegFile c,
                path_join ?cdir get_default_config_name \<mapsto> SymLink (fgen ?nm k))"
    and o: "out w' = out ex_world @ [?bc @ '' -> '' @ path_join ?cdir (fgen ?nm k) @ [CHR 0x0A]]"
    by blast
  have f1: "fgen ?nm 1 = ''config_2024-01-01-r1''" by code_simp
  have k1: "k = 1"
  proof (rule ccontr)
    assume "k \<noteq> 1"
    with k(1) have "1 < k" by simp
    with k(3) have "map_of ?cmap (fgen ?nm 1) \<noteq> None" by blast
    then show False unfolding f1 by simp
  qed
  have cc: "c = ''CONFIG_A=y''"
    using c \<open>open_read (files ex_world) ?bc = Inr ''CONFIG_A=y''\<close> by simp
  have p1: "path_join ?cdir (fgen ?nm k) = ''/store/buildroot/config_2024-01-01-r1''"
    unfolding k1 f1 cd by code_simp
  have p1': "path_join ?cdir ''config_2024-01-01-r1'' = ''/store/buildroot/config_2024-01-01-r1''"
    by code_simp
  have p2: "path_join ?cdir get_default_config_name = ''/store/buildroot/latest''"
    by code_simp
  have fk: "fgen ?nm k = ''config_2024-01-01-r1''" unfolding k1 by (rule f1)
  have ow: "out ex_world = []" by (simp add: ex_world_def)
  have "run_backup ex_env ex_bt None ex_world = Some (Inr None, w')"
    using r go by simp
  moreover have "map_of (files w')
             = (map_of (files ex_world))
                 (''/store/buildroot/config_2024-01-01-r1'' \<mapsto> RegFile ''CONFIG_A=y'',
                  ''/store/buildroot/latest'' \<mapsto> SymLink ''config_2024-01-01-r1'')"
    using m by (simp only: fk p1' p2 cc)
  moreover have "out w' = [''/build/.config -> /store/buildroot/config_2024-01-01-r1\<newline>'']"
    using o unfolding p1 bcf ow by simp
  ultimately show ?thesis using lc n hb h0 by blast
qed

end
